theory Spec2Isabelle
  imports Complex_Main
begin

section \<open>Primal-dual weighted set cover: the program\<close>

text \<open>
  The development follows \<^verbatim>\<open>src/main.cpp\<close>. Conventions of the embedding:

  \<^item> A \<^verbatim>\<open>double\<close> is a value of the type \<open>double\<close> below: a finite number, plus or
    minus infinity, or NaN. Every arithmetic operation on finite values computes the
    exact result and rounds it once to the nearest binary64 number, ties to even, with
    gradual underflow and overflow to an infinity (the default IEEE 754 mode, every
    intermediate result held in binary64). The sign of a zero is not kept: the program
    never divides by a zero (line 65 skips a coefficient below \<^verbatim>\<open>EPSILON\<close>) and a
    comparison does not see the sign. The update of line 76 is a product and a sum, each
    rounded; where the matrix holds zeros and ones the product is exact, so a fused
    multiply-add gives the same.
  \<^item> Sizes and loop counters are natural numbers (the \<^verbatim>\<open>int\<close> counters of the source
    are compared with \<^verbatim>\<open>size_t\<close> bounds; instances beyond \<open>2^31\<close> sets or elements
    are outside the model). The element indices stored in a set are \<open>int\<close>, as in
    \<^verbatim>\<open>std::vector<int>\<close>: they can be negative, and \<^verbatim>\<open>verify\<close> checks that.
  \<^item> \<^verbatim>\<open>assert\<close> is active: a failed assertion ends the run, which is the error value
    \<open>AssertionFailed\<close> (the error the specification calls StructuralError).
  \<^item> An Eigen vector or matrix is a function from indices to coefficients.
    \<^verbatim>\<open>Eigen::MatrixXd A(rows, cols)\<close> and \<^verbatim>\<open>Eigen::VectorXd sum{A.cols()}\<close> allocate
    their coefficients and do not write them (Eigen initialises coefficients only
    under \<^verbatim>\<open>EIGEN_INITIALIZE_MATRICES_BY_ZERO\<close>, which the source does not define), so
    what \<^verbatim>\<open>solve\<close> reads from a coefficient it has not assigned is whatever the
    allocated memory holds. That content is a parameter of the model: \<open>A_alloc\<close>
    for the matrix and \<open>sum_alloc\<close> for the vector.
  \<^item> What \<^verbatim>\<open>solve\<close> writes to \<^verbatim>\<open>std::cerr\<close> is part of its result.
\<close>

subsection \<open>Double precision numbers\<close>

datatype double = Fin real | PInf | NInf | NaN

text \<open>Rounding of a real to the nearest integer, a tie to the even one.\<close>

definition round_even :: "real \<Rightarrow> int" where
  "round_even q =
     (let f = \<lfloor>q\<rfloor>; d = q - of_int f
      in if d < 1 / 2 then f else if 1 / 2 < d then f + 1 else if even f then f else f + 1)"

text \<open>
  Rounding of a real to binary64. The numbers with binary exponent \<open>e\<close> are the multiples
  of \<open>2^(e - 52)\<close>; below the least normal exponent -1022 the spacing stays \<open>2^-1074\<close>.
  A result of magnitude \<open>2^1024\<close> is an infinity.
\<close>

definition round_to_double :: "real \<Rightarrow> double" where
  "round_to_double x =
     (if x = 0 then Fin 0
      else let u = 2 powi (max \<lfloor>log 2 \<bar>x\<bar>\<rfloor> (- 1022) - 52);
               r = of_int (round_even (x / u)) * u
           in if 2 ^ 1024 \<le> \<bar>r\<bar> then (if 0 < x then PInf else NInf) else Fin r)"

fun double_add :: "double \<Rightarrow> double \<Rightarrow> double" where
  "double_add (Fin a) (Fin b) = round_to_double (a + b)"
| "double_add NaN y = NaN"
| "double_add x NaN = NaN"
| "double_add PInf NInf = NaN"
| "double_add NInf PInf = NaN"
| "double_add PInf y = PInf"
| "double_add x PInf = PInf"
| "double_add NInf y = NInf"
| "double_add x NInf = NInf"

fun double_sub :: "double \<Rightarrow> double \<Rightarrow> double" where
  "double_sub (Fin a) (Fin b) = round_to_double (a - b)"
| "double_sub NaN y = NaN"
| "double_sub x NaN = NaN"
| "double_sub PInf PInf = NaN"
| "double_sub NInf NInf = NaN"
| "double_sub PInf y = PInf"
| "double_sub x PInf = NInf"
| "double_sub NInf y = NInf"
| "double_sub x NInf = PInf"

fun double_mul :: "double \<Rightarrow> double \<Rightarrow> double" where
  "double_mul (Fin a) (Fin b) = round_to_double (a * b)"
| "double_mul NaN y = NaN"
| "double_mul x NaN = NaN"
| "double_mul PInf (Fin b) = (if b = 0 then NaN else if 0 < b then PInf else NInf)"
| "double_mul NInf (Fin b) = (if b = 0 then NaN else if 0 < b then NInf else PInf)"
| "double_mul (Fin a) PInf = (if a = 0 then NaN else if 0 < a then PInf else NInf)"
| "double_mul (Fin a) NInf = (if a = 0 then NaN else if 0 < a then NInf else PInf)"
| "double_mul PInf PInf = PInf"
| "double_mul PInf NInf = NInf"
| "double_mul NInf PInf = NInf"
| "double_mul NInf NInf = PInf"

text \<open>
  Division. The case of a finite dividend and a zero divisor takes the zero as positive;
  the program does not reach it.
\<close>

fun double_div :: "double \<Rightarrow> double \<Rightarrow> double" where
  "double_div (Fin a) (Fin b) =
     (if b = 0 then (if a = 0 then NaN else if 0 < a then PInf else NInf)
      else round_to_double (a / b))"
| "double_div NaN y = NaN"
| "double_div x NaN = NaN"
| "double_div (Fin a) PInf = Fin 0"
| "double_div (Fin a) NInf = Fin 0"
| "double_div PInf (Fin b) = (if b < 0 then NInf else PInf)"
| "double_div NInf (Fin b) = (if b < 0 then PInf else NInf)"
| "double_div PInf PInf = NaN"
| "double_div PInf NInf = NaN"
| "double_div NInf PInf = NaN"
| "double_div NInf NInf = NaN"

text \<open>The comparison \<^verbatim>\<open><\<close>: false whenever an operand is NaN.\<close>

fun double_less :: "double \<Rightarrow> double \<Rightarrow> bool" where
  "double_less (Fin a) (Fin b) = (a < b)"
| "double_less NaN y = False"
| "double_less x NaN = False"
| "double_less PInf y = False"
| "double_less x NInf = False"
| "double_less NInf y = True"
| "double_less x PInf = True"

fun double_fabs :: "double \<Rightarrow> double" where
  "double_fabs (Fin a) = Fin \<bar>a\<bar>"
| "double_fabs PInf = PInf"
| "double_fabs NInf = PInf"
| "double_fabs NaN = NaN"

text \<open>
  Line 12. The literal \<^verbatim>\<open>0.0001\<close> is not a binary64 number; the compiler takes the nearest
  one, which is \<open>7378697629483821 / 2^66\<close> (in hexadecimal \<^verbatim>\<open>0x1.a36e2eb1c432dp-14\<close>).
\<close>

definition EPSILON_value :: real where
  "EPSILON_value = 7378697629483821 / 2 ^ 66"

definition EPSILON :: double where
  "EPSILON = Fin EPSILON_value"

subsection \<open>Instance\<close>

record 'c Instance =
  nr_elements :: nat
  sets :: "int list list"
  costs :: "'c list"

definition Instance_new :: "nat \<Rightarrow> 'c Instance" where
  "Instance_new n = \<lparr>nr_elements = n, sets = [], costs = []\<rparr>"

definition add_set :: "'c \<Rightarrow> int list \<Rightarrow> 'c Instance \<Rightarrow> 'c Instance" where
  "add_set cost covered_elements inst =
     inst\<lparr>sets := sets inst @ [covered_elements], costs := costs inst @ [cost]\<rparr>"

datatype error = AssertionFailed

definition verify :: "'c Instance \<Rightarrow> error + unit" where
  "verify inst =
     (if length (costs inst) = length (sets inst) \<and>
         list_all (\<lambda>s. list_all (\<lambda>e. 0 \<le> e \<and> e < int (nr_elements inst)) s) (sets inst)
      then Inr () else Inl AssertionFailed)"

text \<open>A sequence of \<^verbatim>\<open>add_set\<close> calls on an instance, in call order.\<close>

definition add_sets :: "('c \<times> int list) list \<Rightarrow> 'c Instance \<Rightarrow> 'c Instance" where
  "add_sets calls inst = foldl (\<lambda>i call. add_set (fst call) (snd call) i) inst calls"

subsection \<open>solve\<close>

text \<open>Lines 47 to 51: the inner loop writes 1 at every row listed in set \<open>c\<close>.\<close>

fun fill_column :: "(nat \<Rightarrow> nat \<Rightarrow> double) \<Rightarrow> nat \<Rightarrow> int list \<Rightarrow> (nat \<Rightarrow> nat \<Rightarrow> double)" where
  "fill_column A c [] = A"
| "fill_column A c (r # rs) = fill_column (A(nat r := (A (nat r))(c := Fin 1))) c rs"

fun fill_matrix ::
  "(nat \<Rightarrow> nat \<Rightarrow> double) \<Rightarrow> int list list \<Rightarrow> nat list \<Rightarrow> (nat \<Rightarrow> nat \<Rightarrow> double)" where
  "fill_matrix A ss [] = A"
| "fill_matrix A ss (c # cs) = fill_matrix (fill_column A c (ss ! c)) ss cs"

definition coverage_matrix ::
  "(nat \<Rightarrow> nat \<Rightarrow> double) \<Rightarrow> 'c Instance \<Rightarrow> (nat \<Rightarrow> nat \<Rightarrow> double)" where
  "coverage_matrix A_alloc inst = fill_matrix A_alloc (sets inst) [0..<length (sets inst)]"

text \<open>Lines 54 and 55: the cost vector.\<close>

definition cost_vector :: "double Instance \<Rightarrow> (nat \<Rightarrow> double)" where
  "cost_vector inst = (\<lambda>i. costs inst ! i)"

text \<open>
  Lines 63 to 67. \<open>std_min a b\<close> is \<^verbatim>\<open>std::min(a, b)\<close>, which yields \<open>b\<close> when
  \<open>b < a\<close> and \<open>a\<close> otherwise. The accumulator starts at plus infinity.
\<close>

definition std_min :: "double \<Rightarrow> double \<Rightarrow> double" where
  "std_min a b = (if double_less b a then b else a)"

fun max_possible_incr ::
  "(nat \<Rightarrow> double) \<Rightarrow> (nat \<Rightarrow> double) \<Rightarrow> nat list \<Rightarrow> double \<Rightarrow> double" where
  "max_possible_incr covered_by_sets gap [] acc = acc"
| "max_possible_incr covered_by_sets gap (i # is) acc =
     (if double_less (covered_by_sets i) EPSILON
      then max_possible_incr covered_by_sets gap is acc
      else max_possible_incr covered_by_sets gap is
             (std_min acc (double_div (gap i) (covered_by_sets i))))"

text \<open>
  One pass of the loop of lines 58 to 77 for element \<open>e\<close>: \<open>None\<close> is the early
  return of line 72, taken when the increment equals plus infinity; otherwise the
  updated \<^verbatim>\<open>sum\<close>.
\<close>

definition grow_step ::
  "(nat \<Rightarrow> nat \<Rightarrow> double) \<Rightarrow> (nat \<Rightarrow> double) \<Rightarrow> nat \<Rightarrow> nat \<Rightarrow> (nat \<Rightarrow> double)
     \<Rightarrow> (nat \<Rightarrow> double) option" where
  "grow_step A c nr_sets e sm =
     (let incr = max_possible_incr (A e) (\<lambda>i. double_sub (c i) (sm i)) [0..<nr_sets] PInf
      in if incr = PInf then None
         else Some (\<lambda>i. double_add (sm i) (double_mul incr (A e i))))"

fun dual_growth ::
  "(nat \<Rightarrow> nat \<Rightarrow> double) \<Rightarrow> (nat \<Rightarrow> double) \<Rightarrow> nat \<Rightarrow> nat list \<Rightarrow> (nat \<Rightarrow> double)
     \<Rightarrow> (nat \<Rightarrow> double) option" where
  "dual_growth A c nr_sets [] sm = Some sm"
| "dual_growth A c nr_sets (e # es) sm =
     (case grow_step A c nr_sets e sm of
        None \<Rightarrow> None
      | Some sm' \<Rightarrow> dual_growth A c nr_sets es sm')"

text \<open>Lines 80 to 83.\<close>

definition tight_sets :: "(nat \<Rightarrow> double) \<Rightarrow> (nat \<Rightarrow> double) \<Rightarrow> nat \<Rightarrow> nat list" where
  "tight_sets c sm nr_sets =
     filter (\<lambda>s. double_less (double_fabs (double_sub (c s) (sm s))) EPSILON) [0..<nr_sets]"

text \<open>
  The result of \<^verbatim>\<open>solve\<close>: the assertion failure, or the lines written to
  \<^verbatim>\<open>std::cerr\<close> together with the returned vector.
\<close>

definition solve ::
  "(nat \<Rightarrow> nat \<Rightarrow> double) \<Rightarrow> (nat \<Rightarrow> double) \<Rightarrow> double Instance
     \<Rightarrow> error + (string list \<times> nat list)" where
  "solve A_alloc sum_alloc inst =
     (case verify inst of
        Inl err \<Rightarrow> Inl err
      | Inr ok \<Rightarrow>
          (case dual_growth (coverage_matrix A_alloc inst) (cost_vector inst)
                  (length (sets inst)) [0..<nr_elements inst] sum_alloc of
             None \<Rightarrow> Inr ([''Infeasible!''], [])
           | Some sm \<Rightarrow> Inr ([], tight_sets (cost_vector inst) sm (length (sets inst)))))"

text \<open>The instance that \<^verbatim>\<open>main\<close> builds (lines 92 to 96).\<close>

definition main_instance :: "double Instance" where
  "main_instance =
     add_set (Fin 2) [4, 0] (add_set (Fin 3) [3, 4] (add_set (Fin 2) [1, 2, 3]
       (add_set (Fin 50) [0, 1] (Instance_new 5))))"

subsection \<open>Further instances\<close>

text \<open>
  Instances used as concrete inputs below, each built the way \<^verbatim>\<open>main\<close> builds its own.
\<close>

definition negative_cost_instance :: "double Instance" where
  "negative_cost_instance =
     add_set (Fin (- 1)) [1] (add_set (Fin 1) [0, 1] (Instance_new 2))"

definition rounded_gap_instance :: "double Instance" where
  "rounded_gap_instance =
     add_set (Fin 9007199254740994) [0, 1] (add_set (Fin 1) [0] (Instance_new 2))"

definition uncovered_0_instance :: "double Instance" where
  "uncovered_0_instance = add_set (Fin 1) [1] (Instance_new 2)"

definition uncovered_1_instance :: "double Instance" where
  "uncovered_1_instance = add_set (Fin 1) [0] (Instance_new 2)"

definition infinite_cost_uncovered_1_instance :: "double Instance" where
  "infinite_cost_uncovered_1_instance = add_set PInf [0] (Instance_new 2)"

definition no_element_instance :: "double Instance" where
  "no_element_instance = add_set (Fin 1) [] (Instance_new 0)"

definition near_tie_instance :: "double Instance" where
  "near_tie_instance =
     add_set (Fin (1 + 1 / 16384)) [0] (add_set (Fin 1) [0] (Instance_new 1))"

definition rounded_sum_instance :: "double Instance" where
  "rounded_sum_instance =
     add_set (Fin 9007199254740992) [1] (add_set (Fin 9007199254740996) [0, 1]
       (add_set (Fin 3) [0] (Instance_new 2)))"

definition infinite_cost_instance :: "double Instance" where
  "infinite_cost_instance = add_set PInf [0] (add_set (Fin 0) [] (Instance_new 1))"

subsection \<open>Notions of the specification\<close>

text \<open>
  The program has no names for the notions below; the claims are stated with them.
  An instance is feasible when every element of the universe lies in some set, and
  \<open>first_uncovered\<close> is the least element that lies in none.
\<close>

definition feasible :: "'c Instance \<Rightarrow> bool" where
  "feasible inst =
     list_all (\<lambda>e. list_ex (\<lambda>s. int e \<in> set s) (sets inst)) [0..<nr_elements inst]"

definition first_uncovered :: "'c Instance \<Rightarrow> nat option" where
  "first_uncovered inst =
     find (\<lambda>e. \<not> list_ex (\<lambda>s. int e \<in> set s) (sets inst)) [0..<nr_elements inst]"

definition nonneg_costs :: "double Instance \<Rightarrow> bool" where
  "nonneg_costs inst =
     list_all (\<lambda>c. case c of Fin x \<Rightarrow> 0 \<le> x | PInf \<Rightarrow> True | NInf \<Rightarrow> False | NaN \<Rightarrow> False)
       (costs inst)"

text \<open>
  Costs on which the arithmetic of the program is exact: every cost is finite, not
  negative, and a multiple \<open>k * 2^p\<close> of one power of two with \<open>k < 2^53\<close>, where the
  exponent \<open>p\<close> is in the range of binary64. With \<open>p = 0\<close> these are the integers from 0
  to \<open>2^53 - 1\<close>.
\<close>

definition on_grid :: "int \<Rightarrow> real \<Rightarrow> bool" where
  "on_grid p x \<longleftrightarrow>
     0 \<le> x \<and> x / 2 powi p < 2 ^ 53 \<and> of_int \<lfloor>x / 2 powi p\<rfloor> = x / 2 powi p"

definition grid_cost :: "int \<Rightarrow> double \<Rightarrow> bool" where
  "grid_cost p c = (case c of Fin x \<Rightarrow> on_grid p x | PInf \<Rightarrow> False | NInf \<Rightarrow> False | NaN \<Rightarrow> False)"

definition grid_costs :: "int \<Rightarrow> double Instance \<Rightarrow> bool" where
  "grid_costs p inst \<longleftrightarrow> - 1074 \<le> p \<and> p \<le> 971 \<and> list_all (grid_cost p) (costs inst)"

text \<open>The elements of the sets at the indices \<open>cover\<close>, and the element universe.\<close>

definition covered_elements :: "'c Instance \<Rightarrow> nat list \<Rightarrow> int set" where
  "covered_elements inst cover = (\<Union>s\<in>set cover. set (sets inst ! s))"

definition universe :: "'c Instance \<Rightarrow> int set" where
  "universe inst = int ` {0..<nr_elements inst}"

text \<open>
  The number a finite double stands for; the cost of a selection of sets, as the exact
  sum of their costs (meant for instances whose costs are all finite); the covers of an
  instance, each a list of set indices in increasing order; a cover of minimum cost among
  them.
\<close>

fun finite_value :: "double \<Rightarrow> real" where
  "finite_value (Fin x) = x"
| "finite_value PInf = 0"
| "finite_value NInf = 0"
| "finite_value NaN = 0"

definition cost_value :: "double Instance \<Rightarrow> nat \<Rightarrow> real" where
  "cost_value inst s = finite_value (costs inst ! s)"

definition total_cost :: "double Instance \<Rightarrow> nat list \<Rightarrow> real" where
  "total_cost inst cover = sum_list (map (cost_value inst) cover)"

definition is_cover :: "'c Instance \<Rightarrow> nat list \<Rightarrow> bool" where
  "is_cover inst cover =
     list_all (\<lambda>e. list_ex (\<lambda>s. int e \<in> set (sets inst ! s)) cover) [0..<nr_elements inst]"

definition all_covers :: "'c Instance \<Rightarrow> nat list list" where
  "all_covers inst = filter (is_cover inst) (subseqs [0..<length (sets inst)])"

definition optimal_cover :: "double Instance \<Rightarrow> nat list \<Rightarrow> bool" where
  "optimal_cover inst cover \<longleftrightarrow>
     cover \<in> set (all_covers inst) \<and>
     list_all (\<lambda>other. total_cost inst cover \<le> total_cost inst other) (all_covers inst)"

text \<open>
  The frequency of an element is the number of sets that contain it; \<open>max_frequency\<close>
  is the largest frequency of an element of the universe (0 when there is no element).
\<close>

definition frequency :: "'c Instance \<Rightarrow> nat \<Rightarrow> nat" where
  "frequency inst e = length (filter (\<lambda>s. int e \<in> set s) (sets inst))"

definition max_frequency :: "'c Instance \<Rightarrow> nat" where
  "max_frequency inst = foldr max (map (frequency inst) [0..<nr_elements inst]) 0"

subsection \<open>The loop in exact arithmetic\<close>

text \<open>
  The same loop on real numbers, without rounding, with \<open>None\<close> for the infinity. It is
  not the program: it is what the program computes when every operation of a run is
  exact, which the section on exact runs proves for costs on a grid and memory that reads
  zero. \<open>membership\<close> is the matrix of zeros and ones of the comment on line 45.
\<close>

definition membership :: "'c Instance \<Rightarrow> nat \<Rightarrow> nat \<Rightarrow> real" where
  "membership inst e s = (if s < length (sets inst) \<and> int e \<in> set (sets inst ! s) then 1 else 0)"

fun exact_std_min :: "real option \<Rightarrow> real \<Rightarrow> real" where
  "exact_std_min None b = b"
| "exact_std_min (Some a) b = (if b < a then b else a)"

fun exact_max_possible_incr ::
  "(nat \<Rightarrow> real) \<Rightarrow> (nat \<Rightarrow> real) \<Rightarrow> nat list \<Rightarrow> real option \<Rightarrow> real option" where
  "exact_max_possible_incr cov gap [] acc = acc"
| "exact_max_possible_incr cov gap (i # is) acc =
     (if cov i < EPSILON_value then exact_max_possible_incr cov gap is acc
      else exact_max_possible_incr cov gap is (Some (exact_std_min acc (gap i / cov i))))"

definition exact_grow_step ::
  "(nat \<Rightarrow> nat \<Rightarrow> real) \<Rightarrow> (nat \<Rightarrow> real) \<Rightarrow> nat \<Rightarrow> nat \<Rightarrow> (nat \<Rightarrow> real) \<Rightarrow> (nat \<Rightarrow> real) option" where
  "exact_grow_step A c nr_sets e sm =
     (case exact_max_possible_incr (A e) (\<lambda>i. c i - sm i) [0..<nr_sets] None of
        None \<Rightarrow> None
      | Some incr \<Rightarrow> Some (\<lambda>i. sm i + incr * A e i))"

fun exact_dual_growth ::
  "(nat \<Rightarrow> nat \<Rightarrow> real) \<Rightarrow> (nat \<Rightarrow> real) \<Rightarrow> nat \<Rightarrow> nat list \<Rightarrow> (nat \<Rightarrow> real) \<Rightarrow> (nat \<Rightarrow> real) option" where
  "exact_dual_growth A c nr_sets [] sm = Some sm"
| "exact_dual_growth A c nr_sets (e # es) sm =
     (case exact_grow_step A c nr_sets e sm of
        None \<Rightarrow> None
      | Some sm' \<Rightarrow> exact_dual_growth A c nr_sets es sm')"

definition exact_tight_sets :: "(nat \<Rightarrow> real) \<Rightarrow> (nat \<Rightarrow> real) \<Rightarrow> nat \<Rightarrow> nat list" where
  "exact_tight_sets c sm nr_sets = filter (\<lambda>s. \<bar>c s - sm s\<bar> < EPSILON_value) [0..<nr_sets]"

definition as_double :: "real option \<Rightarrow> double" where
  "as_double acc = (case acc of None \<Rightarrow> PInf | Some x \<Rightarrow> Fin x)"

section \<open>Rounding\<close>

text \<open>
  The binary exponent of a number, and rounding inside one binade.
\<close>

lemma round_even_of_int [simp]: "round_even (of_int k) = k"
  by (simp add: round_even_def)

lemma floor_log2_eq:
  assumes "2 powi e \<le> \<bar>x\<bar>" and "\<bar>x\<bar> < 2 powi (e + 1)"
  shows "\<lfloor>log 2 \<bar>x\<bar>\<rfloor> = e"
proof -
  have pos: "0 < \<bar>x\<bar>"
    using assms(1) zero_less_power_int [of "2 :: real" e] by linarith
  have "(2::real) powr real_of_int e = 2 powi e" "(2::real) powr real_of_int (e + 1) = 2 powi (e + 1)"
    by (simp_all only: powr_real_of_int' [of 2, simplified])
  with assms have "2 powr real_of_int e \<le> \<bar>x\<bar> \<and> \<bar>x\<bar> < 2 powr real_of_int (e + 1)"
    by simp
  then show ?thesis
    using floor_log_eq_powr_iff [of "\<bar>x\<bar>" 2 e] pos by simp
qed

lemma floor_log2_less:
  assumes "x \<noteq> 0" and "\<bar>x\<bar> < 2 powi n"
  shows "\<lfloor>log 2 \<bar>x\<bar>\<rfloor> < n"
proof -
  have pos: "0 < \<bar>x\<bar>" using assms(1) by simp
  have "(2::real) powr real_of_int n = 2 powi n"
    by (simp only: powr_real_of_int' [of 2, simplified])
  with assms(2) have "\<bar>x\<bar> < 2 powr real_of_int n" by simp
  then have "log 2 \<bar>x\<bar> < real_of_int n"
    using pos by (simp add: log_less_iff)
  then show ?thesis by linarith
qed

lemma round_to_double_in_binade:
  assumes "2 powi e \<le> \<bar>x\<bar>" and "\<bar>x\<bar> < 2 powi (e + 1)" and "- 1022 \<le> e"
  shows "round_to_double x =
     (let u = 2 powi (e - 52); r = of_int (round_even (x / u)) * u
      in if 2 ^ 1024 \<le> \<bar>r\<bar> then (if 0 < x then PInf else NInf) else Fin r)"
proof -
  have "0 < (2::real) powi e" by simp
  with assms(1) have "0 < \<bar>x\<bar>" by linarith
  then have "x \<noteq> 0" by simp
  moreover have "max \<lfloor>log 2 \<bar>x\<bar>\<rfloor> (- 1022) = e"
    using floor_log2_eq [OF assms(1,2)] assms(3) by simp
  ultimately show ?thesis
    by (simp add: round_to_double_def)
qed

text \<open>
  A multiple \<open>k * 2^p\<close> with \<open>\<bar>k\<bar> < 2^53\<close> and \<open>p\<close> in range is a binary64 number:
  rounding returns it.
\<close>

lemma round_to_double_grid:
  assumes x: "x = of_int k * 2 powi p" and k: "\<bar>k\<bar> < 2 ^ 53"
    and p: "- 1074 \<le> p" "p \<le> 971"
  shows "round_to_double x = Fin x"
proof (cases "x = 0")
  case True
  then show ?thesis by (simp add: round_to_double_def)
next
  case False
  define s where "s = max \<lfloor>log 2 \<bar>x\<bar>\<rfloor> (- 1022) - 52"
  have "\<bar>x\<bar> = of_int \<bar>k\<bar> * 2 powi p"
    by (simp add: x abs_mult)
  also have "\<dots> < 2 ^ 53 * 2 powi p"
  proof (rule mult_strict_right_mono)
    from k have "real_of_int \<bar>k\<bar> < real_of_int (2 ^ 53)" by (simp only: of_int_less_iff)
    then show "real_of_int \<bar>k\<bar> < 2 ^ 53" by simp
  qed simp
  also have "\<dots> = 2 powi (53 + p)"
    by (simp add: power_int_add)
  finally have bound: "\<bar>x\<bar> < 2 powi (53 + p)" .
  from floor_log2_less [OF False bound] p(1) have sp: "s \<le> p" by (simp add: s_def)
  have u: "(2::real) powi s \<noteq> 0" by simp
  have "2 powi p = (2::real) powi (p - s) * 2 powi s"
    by (simp flip: power_int_add)
  also have "(2::real) powi (p - s) = of_int (2 ^ nat (p - s))"
    using sp by (simp add: power_int_nonneg_exp)
  finally have "x = of_int (k * 2 ^ nat (p - s)) * 2 powi s"
    by (simp add: x)
  with u have q: "x / 2 powi s = of_int (k * 2 ^ nat (p - s))"
    by (metis nonzero_mult_div_cancel_right)
  have "of_int (round_even (x / 2 powi s)) * 2 powi s = x / 2 powi s * 2 powi s"
    by (simp only: q round_even_of_int)
  then have r: "of_int (round_even (x / 2 powi s)) * 2 powi s = x"
    using u by simp
  have "(2::real) powi (53 + p) \<le> 2 powi 1024"
    using p(2) by (intro power_int_increasing) simp_all
  with bound have "\<bar>x\<bar> < 2 ^ 1024" by simp
  with False r show ?thesis
    by (simp add: round_to_double_def Let_def flip: s_def)
qed

lemma round_to_double_of_int:
  "\<bar>k\<bar> < 2 ^ 53 \<Longrightarrow> round_to_double (of_int k) = Fin (of_int k)"
  using round_to_double_grid [of "of_int k" k 0] by simp

lemma round_to_double_numeral [simp]:
  "(numeral n :: int) < 9007199254740992 \<Longrightarrow> round_to_double (numeral n) = Fin (numeral n)"
  "(numeral n :: int) < 9007199254740992 \<Longrightarrow> round_to_double (- numeral n) = Fin (- numeral n)"
  "round_to_double 0 = Fin 0" "round_to_double 1 = Fin 1" "round_to_double (- 1) = Fin (- 1)"
  using round_to_double_of_int [of "numeral n"] round_to_double_of_int [of "- numeral n"]
    round_to_double_of_int [of 0] round_to_double_of_int [of 1] round_to_double_of_int [of "- 1"]
  by simp_all

lemma EPSILON_bounds: "0 < EPSILON_value" "EPSILON_value \<le> 1" "\<not> 1 < EPSILON_value"
  by (simp_all add: EPSILON_value_def)

lemma double_less_EPSILON [simp]:
  "double_less (Fin 0) EPSILON" "\<not> double_less (Fin 1) EPSILON"
  by (simp_all add: EPSILON_def EPSILON_bounds)

section \<open>Validation and construction\<close>

lemma verify_ok_iff:
  "verify inst = Inr () \<longleftrightarrow>
     length (costs inst) = length (sets inst) \<and>
     (\<forall>s\<in>set (sets inst). \<forall>e\<in>set s. 0 \<le> e \<and> e < int (nr_elements inst))"
  by (simp add: verify_def list_all_iff)

lemma verify_cases: "verify inst = Inr () \<or> verify inst = Inl AssertionFailed"
  by (simp add: verify_def)

lemma add_sets_append:
  "add_sets calls inst =
     inst\<lparr>sets := sets inst @ map snd calls, costs := costs inst @ map fst calls\<rparr>"
proof (induction calls arbitrary: inst)
  case Nil
  show ?case by (simp add: add_sets_def)
next
  case (Cons call calls)
  have "add_sets (call # calls) inst = add_sets calls (add_set (fst call) (snd call) inst)"
    by (simp add: add_sets_def)
  then show ?case
    by (simp add: Cons.IH add_set_def)
qed

section \<open>The coverage matrix\<close>

text \<open>
  After the two loops of lines 47 to 51 a coefficient is 1 where the loops wrote, and what
  the allocation held everywhere else.
\<close>

lemma fill_column_apply:
  "fill_column A c rs e s = (if s = c \<and> e \<in> nat ` set rs then Fin 1 else A e s)"
  by (induction rs arbitrary: A) auto

lemma fill_matrix_apply:
  "fill_matrix A ss cs e s = (if s \<in> set cs \<and> e \<in> nat ` set (ss ! s) then Fin 1 else A e s)"
  by (induction cs arbitrary: A) (auto simp: fill_column_apply)

lemma coverage_matrix_apply:
  "coverage_matrix A_alloc inst e s =
     (if s < length (sets inst) \<and> e \<in> nat ` set (sets inst ! s) then Fin 1 else A_alloc e s)"
  by (simp add: coverage_matrix_def fill_matrix_apply)

lemma nat_image_iff:
  assumes "\<forall>x\<in>set xs. (0::int) \<le> x"
  shows "e \<in> nat ` set xs \<longleftrightarrow> int e \<in> set xs"
proof
  assume "e \<in> nat ` set xs"
  then obtain x where "x \<in> set xs" "e = nat x" by blast
  with assms show "int e \<in> set xs" by simp
next
  assume "int e \<in> set xs"
  then have "nat (int e) \<in> nat ` set xs" by (rule imageI)
  then show "e \<in> nat ` set xs" by simp
qed

lemma coverage_matrix_verified:
  assumes "verify inst = Inr ()"
  shows "coverage_matrix A_alloc inst e s =
     (if s < length (sets inst) \<and> int e \<in> set (sets inst ! s) then Fin 1 else A_alloc e s)"
proof (cases "s < length (sets inst)")
  case True
  then have "sets inst ! s \<in> set (sets inst)" by simp
  with assms have "\<forall>x\<in>set (sets inst ! s). 0 \<le> x"
    by (auto simp: verify_ok_iff)
  then show ?thesis
    by (simp add: coverage_matrix_apply nat_image_iff)
next
  case False
  then show ?thesis by (simp add: coverage_matrix_apply)
qed

text \<open>
  When the allocated matrix reads zero, the matrix \<^verbatim>\<open>solve\<close> builds is the one the
  comment of line 45 describes: 1 where the set contains the element and 0 elsewhere.
\<close>

lemma coverage_matrix_zeroed:
  assumes "verify inst = Inr ()"
  shows "coverage_matrix (\<lambda>r c. Fin 0) inst e s = Fin (membership inst e s)"
  by (simp add: coverage_matrix_verified [OF assms] membership_def)

section \<open>Claims about validation\<close>

text \<open>
  Claim C7. \<^verbatim>\<open>verify\<close> fails exactly when the numbers of costs and of sets differ or
  some element index of some set is negative or not below \<^verbatim>\<open>nr_elements\<close>. The cost
  values play no part, whatever the type of a cost (first and second conjunct: replacing
  the costs by any others, as many, leaves the outcome as it is; NaN and the infinities
  are among them). \<^verbatim>\<open>solve\<close> calls
  \<^verbatim>\<open>verify\<close> first, and a failure there is the whole result of \<^verbatim>\<open>solve\<close>, for every
  content of the allocated memory and with nothing written to \<^verbatim>\<open>std::cerr\<close>.
\<close>

theorem verify_fails_exactly:
  fixes inst :: "'c Instance" and rinst :: "double Instance"
  shows "(verify inst = Inl AssertionFailed \<longleftrightarrow>
            length (costs inst) \<noteq> length (sets inst) \<or>
            (\<exists>s\<in>set (sets inst). \<exists>e\<in>set s. e < 0 \<or> int (nr_elements inst) \<le> e)) \<and>
         (length cs = length (costs inst) \<longrightarrow> verify (inst\<lparr>costs := cs\<rparr>) = verify inst) \<and>
         (verify rinst = Inl AssertionFailed \<longrightarrow>
            solve A_alloc sum_alloc rinst = Inl AssertionFailed)"
proof (intro conjI impI)
  show "verify inst = Inl AssertionFailed \<longleftrightarrow>
          length (costs inst) \<noteq> length (sets inst) \<or>
          (\<exists>s\<in>set (sets inst). \<exists>e\<in>set s. e < 0 \<or> int (nr_elements inst) \<le> e)"
    by (auto simp: verify_def list_all_iff not_le not_less)
next
  assume "length cs = length (costs inst)"
  then show "verify (inst\<lparr>costs := cs\<rparr>) = verify inst"
    by (simp add: verify_def)
next
  assume "verify rinst = Inl AssertionFailed"
  then show "solve A_alloc sum_alloc rinst = Inl AssertionFailed"
    by (simp add: solve_def)
qed

theorem verify_fails_exactly_witness:
  "verify (add_set (Fin (- 1)) [0, 7] (Instance_new 5)) = Inl AssertionFailed \<and>
   solve (\<lambda>r c. Fin 0) (\<lambda>i. Fin 0) (add_set (Fin (- 1)) [0, 7] (Instance_new 5)) =
     Inl AssertionFailed \<and>
   length [NaN] = length (costs (add_set (Fin 2) [0, 4] (Instance_new 5))) \<and>
   verify ((add_set (Fin 2) [0, 4] (Instance_new 5))\<lparr>costs := [NaN]\<rparr>) = Inr ()"
proof -
  let ?bad = "add_set (Fin (- 1)) [0, 7] (Instance_new 5)"
  let ?good = "add_set (Fin 2) [0, 4] (Instance_new 5)"
  have bad: "verify ?bad = Inl AssertionFailed"
    by (simp add: verify_def add_set_def Instance_new_def)
  have len: "length [NaN] = length (costs ?good)"
    by (simp add: add_set_def Instance_new_def)
  have good: "verify ?good = Inr ()"
    by (simp add: verify_def add_set_def Instance_new_def)
  from verify_fails_exactly [where rinst = ?bad and inst = ?good and cs = "[NaN]"
      and A_alloc = "\<lambda>r c. Fin 0" and sum_alloc = "\<lambda>i. Fin 0"] bad len good
  show ?thesis by simp
qed

text \<open>
  Claim C10. The constructor takes every element count, zero included. On an instance
  constructed with zero elements \<^verbatim>\<open>add_set\<close> appends as on any other (the sets and the
  costs are those of the calls, in call order), and \<^verbatim>\<open>verify\<close> fails exactly when one
  of the added sets is not empty.
\<close>

theorem construct_zero_elements:
  "nr_elements (add_sets calls (Instance_new 0)) = 0 \<and>
   sets (add_sets calls (Instance_new 0)) = map snd calls \<and>
   costs (add_sets calls (Instance_new 0)) = map fst calls \<and>
   (verify (add_sets calls (Instance_new 0)) = Inl AssertionFailed \<longleftrightarrow>
      (\<exists>call\<in>set calls. snd call \<noteq> []))"
proof -
  have "\<And>s::int list. (\<forall>e\<in>set s. 0 \<le> e \<and> e < 0) \<longleftrightarrow> s = []"
    by (metis all_not_in_conv not_less set_empty)
  then show ?thesis
    by (auto simp: add_sets_append Instance_new_def verify_def list_all_iff)
qed

section \<open>Repeated elements in a set\<close>

lemma remdups_update_nth:
  "set (xs[k := remdups (xs ! k)] ! s) = set (xs ! s)"
proof (cases "k < length xs")
  case True
  then show ?thesis by (cases "s = k") simp_all
next
  case False
  then have "length xs \<le> k" by simp
  then show ?thesis by (simp add: list_update_beyond)
qed

lemma list_all_nested_cong:
  assumes "length xs = length ys" and "\<And>i. set (xs ! i) = set (ys ! i)"
  shows "list_all (\<lambda>s. list_all P s) xs = list_all (\<lambda>s. list_all P s) ys"
proof -
  have "list_all (\<lambda>s. list_all P s) zs = (\<forall>i<length zs. \<forall>e\<in>set (zs ! i). P e)" for zs
  proof -
    have "list_all (\<lambda>s. list_all P s) zs = (\<forall>i<length zs. list_all P (zs ! i))"
      by (rule list_all_length)
    then show ?thesis by (simp only: list_all_iff)
  qed
  then show ?thesis using assms by simp
qed

text \<open>
  Claim C9. Removing the repeated element indices from one set (the set at position
  \<open>k\<close>) leaves the result of \<^verbatim>\<open>solve\<close> as it is, the returned indices or the error
  alike, for the same content of the allocated memory: line 49 assigns 1 and never adds.
  No validation is needed for that.
\<close>

theorem repeated_element_is_redundant:
  "solve A_alloc sum_alloc (inst\<lparr>sets := (sets inst)[k := remdups (sets inst ! k)]\<rparr>) =
   solve A_alloc sum_alloc inst"
proof -
  let ?inst' = "inst\<lparr>sets := (sets inst)[k := remdups (sets inst ! k)]\<rparr>"
  have v: "verify ?inst' = verify inst"
    using list_all_nested_cong [of "(sets inst)[k := remdups (sets inst ! k)]" "sets inst"]
    by (simp add: verify_def remdups_update_nth)
  have A: "coverage_matrix A_alloc ?inst' = coverage_matrix A_alloc inst"
    by (intro ext) (simp add: coverage_matrix_apply remdups_update_nth)
  have c: "cost_vector ?inst' = cost_vector inst"
    by (simp add: cost_vector_def)
  show ?thesis
    by (cases "verify inst") (simp_all add: solve_def v A c cong: option.case_cong)
qed

section \<open>The instance of main\<close>

lemma main_instance_fields:
  "main_instance =
     \<lparr>nr_elements = 5, sets = [[0, 1], [1, 2, 3], [3, 4], [4, 0]],
      costs = [Fin 50, Fin 2, Fin 3, Fin 2]\<rparr>"
  by (simp add: main_instance_def add_set_def Instance_new_def)

lemma main_instance_verified: "verify main_instance = Inr ()"
  by (simp add: main_instance_fields verify_def)

lemma main_instance_feasible: "feasible main_instance"
  by (simp add: main_instance_fields feasible_def upt_rec)

lemma on_grid_numeral [simp]:
  "(numeral n :: int) < 9007199254740992 \<Longrightarrow> on_grid 0 (numeral n)"
  "on_grid p 0" "on_grid 0 1"
  by (simp_all add: on_grid_def)

lemma main_instance_grid: "grid_costs 0 main_instance"
  by (simp add: main_instance_fields grid_costs_def grid_cost_def)

text \<open>
  Claim C2 (the code differs). Nothing in \<^verbatim>\<open>solve\<close> writes a 0: a coefficient of the matrix
  that no set assigns, and every component of \<^verbatim>\<open>sum\<close> before the first element, is what
  the allocation held. On the instance of \<^verbatim>\<open>main\<close>, with an allocation that reads 1:
  set 0 does not contain element 2 and the coefficient (2, 0) is 1; and after the pass for
  element 0 the components of \<^verbatim>\<open>sum\<close> for sets 1 and 2, which do not contain element 0,
  still hold the 1 of the allocation (from zeros the vector would be 2, 0, 0, 2).
\<close>

theorem coverage_matrix_keeps_allocation:
  "verify main_instance = Inr () \<and>
   int 2 \<notin> set (sets main_instance ! 0) \<and>
   coverage_matrix (\<lambda>r c. Fin 1) main_instance 2 0 = Fin 1 \<and>
   map_option (\<lambda>sm. map sm [0..<4])
     (grow_step (coverage_matrix (\<lambda>r c. Fin 0) main_instance) (cost_vector main_instance)
        (length (sets main_instance)) 0 (\<lambda>i. Fin 1)) = Some [Fin 2, Fin 1, Fin 1, Fin 2]"
  by (simp add: main_instance_fields verify_def coverage_matrix_def cost_vector_def
      grow_step_def std_min_def Let_def upt_rec)

text \<open>
  Claim C5 (the code differs). On the instance of \<^verbatim>\<open>main\<close> the result depends on the
  allocated memory: when the component of \<^verbatim>\<open>sum\<close> for set 2 holds a stale 3, set 2 counts
  as tight from the start and \<^verbatim>\<open>solve\<close> returns 1, 2, 3. From memory that reads zero it
  returns 1, 3, as the lemma after it shows.
\<close>

theorem main_instance_stale_sum:
  "solve (\<lambda>r c. Fin 0) (\<lambda>i. if i = 2 then Fin 3 else Fin 0) main_instance = Inr ([], [1, 2, 3])"
  by (simp add: main_instance_fields solve_def verify_def coverage_matrix_def cost_vector_def
      grow_step_def std_min_def Let_def tight_sets_def EPSILON_def EPSILON_value_def upt_rec)

lemma main_instance_zeroed:
  "solve (\<lambda>r c. Fin 0) (\<lambda>i. Fin 0) main_instance = Inr ([], [1, 3])"
  by (simp add: main_instance_fields solve_def verify_def coverage_matrix_def cost_vector_def
      grow_step_def std_min_def Let_def tight_sets_def EPSILON_def EPSILON_value_def upt_rec)

text \<open>
  Claim C8 (the code differs). On the instance of \<^verbatim>\<open>main\<close>, whose costs are not negative,
  with a stale 3 in every component of \<^verbatim>\<open>sum\<close>: the pass for element 0 takes the
  component for set 0 from 3 down to 2 (the increment is the gap of set 3, which is -1).
\<close>

theorem slack_decreases_from_stale_sum:
  "verify main_instance = Inr () \<and> nonneg_costs main_instance \<and>
   map_option (\<lambda>sm. sm 0)
     (grow_step (coverage_matrix (\<lambda>r c. Fin 0) main_instance) (cost_vector main_instance)
        (length (sets main_instance)) 0 (\<lambda>i. Fin 3)) = Some (Fin 2) \<and>
   double_less (Fin 2) (Fin 3)"
  by (simp add: main_instance_fields verify_def nonneg_costs_def coverage_matrix_def
      cost_vector_def grow_step_def std_min_def Let_def upt_rec)

section \<open>The loop in exact arithmetic: invariants\<close>

text \<open>
  What the inner loop computes in exact arithmetic: no value exactly when no coefficient of
  the row reaches the tolerance, and otherwise the least quotient over those that do.
\<close>

lemma exact_max_possible_incr_None_iff:
  "exact_max_possible_incr cov gap is acc = None \<longleftrightarrow> acc = None \<and> (\<forall>i\<in>set is. cov i < EPSILON_value)"
  by (induction "is" arbitrary: acc) auto

lemma exact_std_min_le: "exact_std_min acc x \<le> x" "acc = Some a \<Longrightarrow> exact_std_min acc x \<le> a"
  by (cases acc; simp)+

lemma exact_std_min_cases: "exact_std_min acc x = x \<or> acc = Some (exact_std_min acc x)"
  by (cases acc) auto

lemma exact_max_possible_incr_Some:
  "exact_max_possible_incr cov gap is acc = Some d \<Longrightarrow>
     (\<forall>i\<in>set is. EPSILON_value \<le> cov i \<longrightarrow> d \<le> gap i / cov i) \<and>
     (\<forall>a. acc = Some a \<longrightarrow> d \<le> a) \<and>
     (acc = Some d \<or> (\<exists>i\<in>set is. EPSILON_value \<le> cov i \<and> d = gap i / cov i))"
proof (induction "is" arbitrary: acc)
  case Nil
  then show ?case by simp
next
  case (Cons i "is")
  show ?case
  proof (cases "cov i < EPSILON_value")
    case True
    with Cons.prems have "exact_max_possible_incr cov gap is acc = Some d" by simp
    from Cons.IH [OF this] True show ?thesis by auto
  next
    case False
    let ?x = "gap i / cov i"
    from False Cons.prems have "exact_max_possible_incr cov gap is (Some (exact_std_min acc ?x)) = Some d"
      by simp
    from Cons.IH [OF this]
    have rest: "\<forall>j\<in>set is. EPSILON_value \<le> cov j \<longrightarrow> d \<le> gap j / cov j"
      and le: "d \<le> exact_std_min acc ?x"
      and att: "d = exact_std_min acc ?x \<or> (\<exists>j\<in>set is. EPSILON_value \<le> cov j \<and> d = gap j / cov j)"
      by auto
    from le exact_std_min_le(1) [of acc ?x] have dx: "d \<le> ?x" by linarith
    have da: "\<forall>a. acc = Some a \<longrightarrow> d \<le> a"
      using le exact_std_min_le(2) [of acc _ ?x] by fastforce
    have "acc = Some d \<or> (\<exists>j\<in>set (i # is). EPSILON_value \<le> cov j \<and> d = gap j / cov j)"
      using att exact_std_min_cases [of acc ?x] False by auto
    with rest dx da show ?thesis by simp
  qed
qed


text \<open>
  One pass of the exact loop on a row whose coefficients are all 0 or 1, from a slack
  below the costs: the increment is the least gap of a covering set, it is not negative,
  the slack stays below the costs and one covering set becomes tight.
\<close>

lemma exact_grow_step_None_iff:
  "exact_grow_step A c m e sm = None \<longleftrightarrow> (\<forall>i<m. A e i < EPSILON_value)"
proof -
  have "exact_grow_step A c m e sm = None \<longleftrightarrow>
          exact_max_possible_incr (A e) (\<lambda>i. c i - sm i) [0..<m] None = None"
    by (simp add: exact_grow_step_def split: option.splits)
  then show ?thesis by (auto simp: exact_max_possible_incr_None_iff)
qed

lemma exact_grow_step_indicator:
  assumes step: "exact_grow_step A c m e sm = Some sm'"
    and ind: "\<forall>i. A e i = 0 \<or> A e i = 1"
  shows "\<exists>d. sm' = (\<lambda>i. sm i + d * A e i) \<and>
             (\<forall>i<m. A e i = 1 \<longrightarrow> d \<le> c i - sm i) \<and>
             (\<exists>i<m. A e i = 1 \<and> d = c i - sm i)"
proof -
  from step obtain d
    where d: "exact_max_possible_incr (A e) (\<lambda>i. c i - sm i) [0..<m] None = Some d"
      and sm': "sm' = (\<lambda>i. sm i + d * A e i)"
    by (auto simp: exact_grow_step_def split: option.splits)
  from exact_max_possible_incr_Some [OF d]
  have low: "\<forall>i\<in>set [0..<m]. EPSILON_value \<le> A e i \<longrightarrow> d \<le> (c i - sm i) / A e i"
    and att: "\<exists>i\<in>set [0..<m]. EPSILON_value \<le> A e i \<and> d = (c i - sm i) / A e i"
    by auto
  have one: "EPSILON_value \<le> A e i \<longleftrightarrow> A e i = 1" for i
    using ind [rule_format, of i] EPSILON_bounds by auto
  from low have "\<forall>i<m. A e i = 1 \<longrightarrow> d \<le> c i - sm i"
    by (auto simp: one)
  moreover from att have "\<exists>i<m. A e i = 1 \<and> d = c i - sm i"
    by (auto simp: one)
  ultimately show ?thesis using sm' by blast
qed

lemma exact_grow_step_invariant:
  assumes step: "exact_grow_step A c m e sm = Some sm'"
    and ind: "\<forall>i. A e i = 0 \<or> A e i = 1"
    and inv: "\<forall>i<m. sm i \<le> c i"
  shows "\<forall>i<m. sm' i \<le> c i" and "\<forall>i. sm i \<le> sm' i" and "\<exists>i<m. A e i = 1 \<and> sm' i = c i"
proof -
  from exact_grow_step_indicator [OF step ind] obtain d
    where sm': "sm' = (\<lambda>i. sm i + d * A e i)"
      and low: "\<forall>i<m. A e i = 1 \<longrightarrow> d \<le> c i - sm i"
      and att: "\<exists>i<m. A e i = 1 \<and> d = c i - sm i"
    by blast
  from att inv have d0: "0 \<le> d" by auto
  show "\<forall>i<m. sm' i \<le> c i"
  proof (intro allI impI)
    fix i assume i: "i < m"
    from ind have "A e i = 0 \<or> A e i = 1" by blast
    then show "sm' i \<le> c i"
      using low inv i by (auto simp: sm')
  qed
  show "\<forall>i. sm i \<le> sm' i"
  proof
    fix i
    from ind have "A e i = 0 \<or> A e i = 1" by blast
    then show "sm i \<le> sm' i" using d0 by (auto simp: sm')
  qed
  from att show "\<exists>i<m. A e i = 1 \<and> sm' i = c i"
    by (auto simp: sm')
qed

lemma exact_dual_growth_invariant:
  assumes "exact_dual_growth A c m es sm = Some sm'"
    and ind: "\<forall>e i. A e i = 0 \<or> A e i = 1"
    and "\<forall>i<m. sm i \<le> c i"
  shows "(\<forall>i<m. sm' i \<le> c i) \<and> (\<forall>i. sm i \<le> sm' i) \<and>
         (\<forall>e\<in>set es. \<exists>i<m. A e i = 1 \<and> sm' i = c i)"
  using assms(1,3)
proof (induction es arbitrary: sm)
  case Nil
  then show ?case by simp
next
  case (Cons e es)
  from Cons.prems(1) obtain sm1
    where step: "exact_grow_step A c m e sm = Some sm1"
      and rest: "exact_dual_growth A c m es sm1 = Some sm'"
    by (auto split: option.splits)
  from ind have ind_e: "\<forall>i. A e i = 0 \<or> A e i = 1" by blast
  note s = exact_grow_step_invariant [OF step ind_e Cons.prems(2)]
  from Cons.IH [OF rest s(1)]
  have inv': "\<forall>i<m. sm' i \<le> c i" and mono: "\<forall>i. sm1 i \<le> sm' i"
    and tight: "\<forall>e\<in>set es. \<exists>i<m. A e i = 1 \<and> sm' i = c i"
    by auto
  from s(3) obtain i where i: "i < m" "A e i = 1" "sm1 i = c i" by blast
  with inv' mono have "sm' i = c i"
    by (metis order_antisym)
  with i have "\<exists>i<m. A e i = 1 \<and> sm' i = c i" by blast
  moreover have "\<forall>i. sm i \<le> sm' i"
    using s(2) mono by (meson order_trans)
  ultimately show ?case using inv' tight by simp
qed

lemma exact_dual_growth_append:
  "exact_dual_growth A c m (xs @ ys) sm =
     (case exact_dual_growth A c m xs sm of None \<Rightarrow> None | Some sm1 \<Rightarrow> exact_dual_growth A c m ys sm1)"
  by (induction xs arbitrary: sm) (auto split: option.splits)

lemma exact_dual_growth_total:
  assumes "\<forall>e\<in>set es. \<exists>i<m. EPSILON_value \<le> A e i"
  shows "\<exists>sm'. exact_dual_growth A c m es sm = Some sm'"
  using assms
proof (induction es arbitrary: sm)
  case Nil
  show ?case by simp
next
  case (Cons e es)
  from Cons.prems have "\<exists>i<m. EPSILON_value \<le> A e i" by simp
  then have "exact_grow_step A c m e sm \<noteq> None"
    by (auto simp: exact_grow_step_None_iff not_less)
  then obtain sm1 where "exact_grow_step A c m e sm = Some sm1" by blast
  moreover from Cons.prems have "\<exists>sm'. exact_dual_growth A c m es sm1 = Some sm'"
    by (intro Cons.IH) simp
  ultimately show ?case by simp
qed

lemma feasible_iff:
  "feasible inst \<longleftrightarrow>
     (\<forall>e<nr_elements inst. \<exists>s<length (sets inst). int e \<in> set (sets inst ! s))"
  by (auto simp: feasible_def list_all_iff list_ex_length)

lemma sum_nth_indicator:
  "(\<Sum>i<length xs. if P (xs ! i) then 1 else 0) = real (length (filter P xs))"
proof (induction xs rule: rev_induct)
  case Nil
  show ?case by simp
next
  case (snoc x xs)
  have "(\<Sum>i<length xs. if P ((xs @ [x]) ! i) then 1 else 0 :: real) =
        (\<Sum>i<length xs. if P (xs ! i) then 1 else 0)"
    by (intro sum.cong) (simp_all add: nth_append)
  with snoc.IH show ?case by simp
qed

lemma le_foldr_max: "x \<in> set xs \<Longrightarrow> x \<le> foldr max xs (0 :: nat)"
  by (induction xs) auto

lemma frequency_le_max:
  "e < nr_elements inst \<Longrightarrow> frequency inst e \<le> max_frequency inst"
  unfolding max_frequency_def by (rule le_foldr_max) simp

text \<open>
  The charging argument of the primal-dual schema, on the state of the exact loop. One pass
  adds the increment \<open>d\<close> to the slack of every set that contains the element: to all
  sets together that is \<open>d\<close> times the frequency, and to the sets of a cover \<open>C\<close> it is at
  least \<open>d\<close>. So over the whole loop the slack of all sets grows by at most \<open>f\<close> times
  what the slack of the sets of \<open>C\<close> grows by.
\<close>

lemma exact_grow_step_charging:
  assumes step: "exact_grow_step A c m e sm = Some sm1"
    and ind: "\<forall>i. A e i = 0 \<or> A e i = 1"
    and inv: "\<forall>i<m. sm i \<le> c i"
    and freq: "(\<Sum>i<m. A e i) \<le> f"
    and cov: "\<exists>i\<in>C. A e i = 1"
    and C: "finite C"
  shows "(\<Sum>i<m. sm1 i) - (\<Sum>i<m. sm i) \<le> f * ((\<Sum>i\<in>C. sm1 i) - (\<Sum>i\<in>C. sm i))"
proof -
  from exact_grow_step_indicator [OF step ind] obtain d
    where sm1: "sm1 = (\<lambda>i. sm i + d * A e i)"
      and att: "\<exists>i<m. A e i = 1 \<and> d = c i - sm i"
    by blast
  from att inv have d0: "0 \<le> d" by auto
  have A0: "0 \<le> A e i" for i
    using ind [rule_format, of i] by auto
  have all: "(\<Sum>i<m. sm1 i) - (\<Sum>i<m. sm i) = d * (\<Sum>i<m. A e i)"
    by (simp add: sm1 sum.distrib sum_distrib_left)
  have onC: "(\<Sum>i\<in>C. sm1 i) - (\<Sum>i\<in>C. sm i) = d * (\<Sum>i\<in>C. A e i)"
    by (simp add: sm1 sum.distrib sum_distrib_left)
  from cov obtain i0 where i0: "i0 \<in> C" "A e i0 = 1" by blast
  have "A e i0 \<le> (\<Sum>i\<in>C. A e i)"
    by (rule member_le_sum [OF i0(1) _ C]) (rule A0)
  with i0(2) have C1: "1 \<le> (\<Sum>i\<in>C. A e i)" by simp
  have f0: "0 \<le> f"
    using freq sum_nonneg [of "{..<m}" "A e"] A0 by (meson order_trans)
  have "d * (\<Sum>i<m. A e i) \<le> d * f"
    by (rule mult_left_mono [OF freq d0])
  also have "\<dots> = f * (d * 1)" by simp
  also have "\<dots> \<le> f * (d * (\<Sum>i\<in>C. A e i))"
    by (intro mult_left_mono C1 d0 f0)
  finally show ?thesis by (simp only: all onC)
qed

lemma exact_dual_growth_charging:
  assumes run: "exact_dual_growth A c m es sm = Some sm'"
    and ind: "\<forall>e i. A e i = 0 \<or> A e i = 1"
    and inv: "\<forall>i<m. sm i \<le> c i"
    and freq: "\<forall>e\<in>set es. (\<Sum>i<m. A e i) \<le> f"
    and cov: "\<forall>e\<in>set es. \<exists>i\<in>C. A e i = 1"
    and C: "finite C"
  shows "(\<Sum>i<m. sm' i) - (\<Sum>i<m. sm i) \<le> f * ((\<Sum>i\<in>C. sm' i) - (\<Sum>i\<in>C. sm i))"
  using run inv freq cov
proof (induction es arbitrary: sm)
  case Nil
  then show ?case by simp
next
  case (Cons e es)
  from Cons.prems(1) obtain sm1
    where step: "exact_grow_step A c m e sm = Some sm1"
      and rest: "exact_dual_growth A c m es sm1 = Some sm'"
    by (auto split: option.splits)
  from ind have ind_e: "\<forall>i. A e i = 0 \<or> A e i = 1" by blast
  from Cons.prems(3) have fe: "(\<Sum>i<m. A e i) \<le> f" by simp
  from Cons.prems(4) have ce: "\<exists>i\<in>C. A e i = 1" by simp
  note one = exact_grow_step_charging [OF step ind_e Cons.prems(2) fe ce C]
  note inv1 = exact_grow_step_invariant(1) [OF step ind_e Cons.prems(2)]
  from Cons.prems(3,4) have "\<forall>e\<in>set es. (\<Sum>i<m. A e i) \<le> f" "\<forall>e\<in>set es. \<exists>i\<in>C. A e i = 1"
    by simp_all
  note more = Cons.IH [OF rest inv1 this]
  have "(\<Sum>i<m. sm' i) - (\<Sum>i<m. sm i) =
        ((\<Sum>i<m. sm' i) - (\<Sum>i<m. sm1 i)) + ((\<Sum>i<m. sm1 i) - (\<Sum>i<m. sm i))"
    by simp
  also have "\<dots> \<le> f * ((\<Sum>i\<in>C. sm' i) - (\<Sum>i\<in>C. sm1 i)) +
                    f * ((\<Sum>i\<in>C. sm1 i) - (\<Sum>i\<in>C. sm i))"
    by (rule add_mono [OF more one])
  also have "\<dots> = f * ((\<Sum>i\<in>C. sm' i) - (\<Sum>i\<in>C. sm i))"
    by (simp add: algebra_simps)
  finally show ?case .
qed


lemma membership_indicator: "membership inst e i = 0 \<or> membership inst e i = 1"
  by (simp add: membership_def)

lemma membership_feasible:
  assumes "feasible inst"
  shows "\<forall>e\<in>set [0..<nr_elements inst]. \<exists>i<length (sets inst). EPSILON_value \<le> membership inst e i"
proof
  fix e assume "e \<in> set [0..<nr_elements inst]"
  then have "e < nr_elements inst" by simp
  with assms obtain s where "s < length (sets inst)" "int e \<in> set (sets inst ! s)"
    by (auto simp: feasible_iff)
  then have "s < length (sets inst) \<and> EPSILON_value \<le> membership inst e s"
    by (simp add: membership_def EPSILON_bounds)
  then show "\<exists>i<length (sets inst). EPSILON_value \<le> membership inst e i" by blast
qed

lemma row_sum_frequency:
  "(\<Sum>i<length (sets inst). membership inst e i) = real (frequency inst e)"
proof -
  have "(\<Sum>i<length (sets inst). membership inst e i) =
        (\<Sum>i<length (sets inst). if int e \<in> set (sets inst ! i) then 1 else 0)"
    by (intro sum.cong) (simp_all add: membership_def)
  with sum_nth_indicator [of "\<lambda>s. int e \<in> set s" "sets inst"] show ?thesis
    by (simp add: frequency_def)
qed

section \<open>Exact runs\<close>

text \<open>
  The grid of the multiples of \<open>2^p\<close> below \<open>2^(p + 53)\<close>: every number on it is a binary64
  number, and so are a difference of two of them and a sum that stays below a third.
\<close>

lemma on_grid_iff:
  "on_grid p x \<longleftrightarrow> (\<exists>k::nat. k < 2 ^ 53 \<and> x = real k * 2 powi p)"
proof
  assume g: "on_grid p x"
  let ?q = "x / 2 powi p"
  from g have q0: "0 \<le> ?q" and q53: "?q < 2 ^ 53" and fl: "of_int \<lfloor>?q\<rfloor> = ?q"
    by (simp_all add: on_grid_def)
  from q0 have "0 \<le> \<lfloor>?q\<rfloor>" by simp
  then have k: "real (nat \<lfloor>?q\<rfloor>) = ?q" using fl by simp
  with q53 have "real (nat \<lfloor>?q\<rfloor>) < real (2 ^ 53)" by simp
  then have "nat \<lfloor>?q\<rfloor> < 2 ^ 53" by (simp only: of_nat_less_iff)
  moreover have "x = real (nat \<lfloor>?q\<rfloor>) * 2 powi p" by (simp add: k)
  ultimately show "\<exists>k::nat. k < 2 ^ 53 \<and> x = real k * 2 powi p" by blast
next
  assume "\<exists>k::nat. k < 2 ^ 53 \<and> x = real k * 2 powi p"
  then obtain k :: nat where k: "k < 2 ^ 53" and x: "x = real k * 2 powi p" by blast
  have q: "x / 2 powi p = real k" by (simp add: x)
  from k have "real k < real (2 ^ 53)" by (simp only: of_nat_less_iff)
  then show "on_grid p x"
    by (simp add: on_grid_def q) (simp add: x)
qed

lemma on_grid_nonneg: "on_grid p x \<Longrightarrow> 0 \<le> x"
  by (simp add: on_grid_def)

lemma on_grid_zero: "on_grid p 0"
  by (simp add: on_grid_def)

lemma on_grid_round:
  assumes "- 1074 \<le> p" and "p \<le> 971" and "on_grid p x"
  shows "round_to_double x = Fin x"
proof -
  from assms(3) obtain k :: nat where k: "k < 2 ^ 53" and x: "x = real k * 2 powi p"
    by (auto simp: on_grid_iff)
  from k have kk: "\<bar>int k\<bar> < 2 ^ 53" by simp
  have xx: "x = of_int (int k) * 2 powi p" by (simp add: x)
  show ?thesis by (rule round_to_double_grid [OF xx kk assms(1,2)])
qed

lemma grid_factor_le:
  assumes "real a * 2 powi p \<le> real b * 2 powi p"
  shows "a \<le> b"
proof -
  have "0 < (2::real) powi p" by simp
  with assms have "real a \<le> real b" by (simp only: mult_le_cancel_right_pos)
  then show ?thesis by simp
qed

lemma on_grid_diff:
  assumes "on_grid p a" and "on_grid p b" and "b \<le> a"
  shows "on_grid p (a - b)"
proof -
  from assms(1) obtain ka :: nat where ka: "ka < 2 ^ 53" "a = real ka * 2 powi p"
    by (auto simp: on_grid_iff)
  from assms(2) obtain kb :: nat where kb: "kb < 2 ^ 53" "b = real kb * 2 powi p"
    by (auto simp: on_grid_iff)
  from assms(3) ka(2) kb(2) have le: "kb \<le> ka" by (auto intro: grid_factor_le)
  then have "a - b = real (ka - kb) * 2 powi p"
    by (simp add: ka(2) kb(2) algebra_simps)
  moreover from ka(1) have "ka - kb < 2 ^ 53" by simp
  ultimately show ?thesis unfolding on_grid_iff by blast
qed

lemma on_grid_add:
  assumes "on_grid p a" and "on_grid p b" and "on_grid p c" and "a + b \<le> c"
  shows "on_grid p (a + b)"
proof -
  from assms(1) obtain ka :: nat where ka: "a = real ka * 2 powi p"
    by (auto simp: on_grid_iff)
  from assms(2) obtain kb :: nat where kb: "b = real kb * 2 powi p"
    by (auto simp: on_grid_iff)
  from assms(3) obtain kc :: nat where kc: "kc < 2 ^ 53" "c = real kc * 2 powi p"
    by (auto simp: on_grid_iff)
  have sum: "a + b = real (ka + kb) * 2 powi p"
    by (simp add: ka kb algebra_simps)
  with assms(4) kc(2) have "ka + kb \<le> kc" by (auto intro: grid_factor_le)
  with kc(1) have "ka + kb < 2 ^ 53" by simp
  with sum show ?thesis unfolding on_grid_iff by blast
qed

text \<open>
  On a row of zeros and ones, with gaps whose quotient by 1 is exact, the inner loop of the
  program computes what the exact loop computes.
\<close>

lemma std_min_as_double:
  "std_min (as_double acc) (Fin x) = Fin (exact_std_min acc x)"
  by (cases acc) (simp_all add: std_min_def as_double_def)

lemma as_double_simps: "as_double None = PInf" "as_double (Some x) = Fin x"
  by (simp_all add: as_double_def)

lemma exact_incr_indicator:
  assumes d: "exact_max_possible_incr (A e) (\<lambda>i. c i - sm i) [0..<m] None = Some d"
    and ind: "\<forall>i. A e i = 0 \<or> A e i = 1"
  shows "\<forall>i<m. A e i = 1 \<longrightarrow> d \<le> c i - sm i" and "\<exists>i<m. A e i = 1 \<and> d = c i - sm i"
proof -
  from exact_max_possible_incr_Some [OF d]
  have low: "\<forall>i\<in>set [0..<m]. EPSILON_value \<le> A e i \<longrightarrow> d \<le> (c i - sm i) / A e i"
    and att: "\<exists>i\<in>set [0..<m]. EPSILON_value \<le> A e i \<and> d = (c i - sm i) / A e i"
    by auto
  have one: "EPSILON_value \<le> A e i \<longleftrightarrow> A e i = 1" for i
    using ind [rule_format, of i] EPSILON_bounds by auto
  from low show "\<forall>i<m. A e i = 1 \<longrightarrow> d \<le> c i - sm i"
    by (auto simp: one)
  from att show "\<exists>i<m. A e i = 1 \<and> d = c i - sm i"
    by (auto simp: one)
qed

lemma max_possible_incr_exact:
  assumes "\<forall>i\<in>set is. covd i = Fin (cov i) \<and> (cov i = 0 \<or> cov i = 1)"
    and "\<forall>i\<in>set is. cov i = 1 \<longrightarrow> double_div (gapd i) (Fin 1) = Fin (gap i)"
  shows "max_possible_incr covd gapd is (as_double acc) =
           as_double (exact_max_possible_incr cov gap is acc)"
  using assms
proof (induction "is" arbitrary: acc)
  case Nil
  show ?case by simp
next
  case (Cons i "is")
  from Cons.prems have covd: "covd i = Fin (cov i)" and c01: "cov i = 0 \<or> cov i = 1"
    by simp_all
  from Cons.prems have rest:
    "\<forall>i\<in>set is. covd i = Fin (cov i) \<and> (cov i = 0 \<or> cov i = 1)"
    "\<forall>i\<in>set is. cov i = 1 \<longrightarrow> double_div (gapd i) (Fin 1) = Fin (gap i)"
    by simp_all
  from c01 show ?case
  proof
    assume z: "cov i = 0"
    then show ?thesis
      using Cons.IH [OF rest, of acc] by (simp add: covd EPSILON_bounds)
  next
    assume o: "cov i = 1"
    with Cons.prems(2) have q: "double_div (gapd i) (Fin 1) = Fin (gap i)" by simp
    have "std_min (as_double acc) (Fin (gap i)) = as_double (Some (exact_std_min acc (gap i)))"
      by (simp only: std_min_as_double as_double_simps)
    then show ?thesis
      using Cons.IH [OF rest, of "Some (exact_std_min acc (gap i))"]
      by (simp add: covd o q EPSILON_bounds)
  qed
qed

text \<open>
  One pass of the outer loop. The state of the program and the state of the exact loop
  agree on the components of the sets, every one of them on the grid and between zero and
  the cost; then they agree after the pass, or both take the early return.
\<close>

lemma grow_step_exact:
  assumes p: "- 1074 \<le> p" "p \<le> 971"
    and Ad: "\<forall>i<m. Ad e i = Fin (A e i)"
    and ind: "\<forall>i. A e i = 0 \<or> A e i = 1"
    and cd: "\<forall>i<m. cd i = Fin (c i) \<and> on_grid p (c i)"
    and rel: "\<forall>i<m. smd i = Fin (sm i)"
    and inv: "\<forall>i<m. sm i \<le> c i \<and> on_grid p (sm i)"
  shows "case exact_grow_step A c m e sm of
           None \<Rightarrow> grow_step Ad cd m e smd = None
         | Some sm' \<Rightarrow>
             (\<exists>smd'. grow_step Ad cd m e smd = Some smd' \<and>
                (\<forall>i<m. smd' i = Fin (sm' i)) \<and>
                (\<forall>i<m. sm' i \<le> c i \<and> on_grid p (sm' i)))"
proof -
  have gap: "double_sub (cd i) (smd i) = Fin (c i - sm i)" and gapg: "on_grid p (c i - sm i)"
    if "i < m" for i
  proof -
    from that cd inv show g: "on_grid p (c i - sm i)"
      by (intro on_grid_diff) simp_all
    from that cd rel show "double_sub (cd i) (smd i) = Fin (c i - sm i)"
      by (simp add: on_grid_round [OF p g])
  qed
  have "max_possible_incr (Ad e) (\<lambda>i. double_sub (cd i) (smd i)) [0..<m] (as_double None) =
          as_double (exact_max_possible_incr (A e) (\<lambda>i. c i - sm i) [0..<m] None)"
  proof (rule max_possible_incr_exact)
    show "\<forall>i\<in>set [0..<m]. Ad e i = Fin (A e i) \<and> (A e i = 0 \<or> A e i = 1)"
      using Ad ind by simp
    show "\<forall>i\<in>set [0..<m]. A e i = 1 \<longrightarrow>
            double_div (double_sub (cd i) (smd i)) (Fin 1) = Fin (c i - sm i)"
      by (simp add: gap on_grid_round [OF p gapg])
  qed
  then have incr: "max_possible_incr (Ad e) (\<lambda>i. double_sub (cd i) (smd i)) [0..<m] PInf =
          as_double (exact_max_possible_incr (A e) (\<lambda>i. c i - sm i) [0..<m] None)"
    by (simp add: as_double_simps)
  show ?thesis
  proof (cases "exact_grow_step A c m e sm")
    case None
    then have "exact_max_possible_incr (A e) (\<lambda>i. c i - sm i) [0..<m] None = None"
      by (simp add: exact_grow_step_def split: option.splits)
    with incr have "grow_step Ad cd m e smd = None"
      by (simp add: grow_step_def as_double_simps)
    with None show ?thesis by simp
  next
    case (Some sm')
    then obtain d where d: "exact_max_possible_incr (A e) (\<lambda>i. c i - sm i) [0..<m] None = Some d"
      and sm': "sm' = (\<lambda>i. sm i + d * A e i)"
      by (auto simp: exact_grow_step_def split: option.splits)
    note low = exact_incr_indicator(1) [where A = A and e = e, OF d ind]
      and att = exact_incr_indicator(2) [where A = A and e = e, OF d ind]
    from att gapg have dg: "on_grid p d" by auto
    let ?smd' = "\<lambda>i. double_add (smd i) (double_mul (Fin d) (Ad e i))"
    from incr d have step: "grow_step Ad cd m e smd = Some ?smd'"
      by (simp add: grow_step_def as_double_simps)
    have comp: "?smd' i = Fin (sm' i) \<and> sm' i \<le> c i \<and> on_grid p (sm' i)" if "i < m" for i
    proof -
      from that inv have smg: "on_grid p (sm i)" and smc: "sm i \<le> c i" by simp_all
      from that cd have cg: "on_grid p (c i)" by simp
      from ind have "A e i = 0 \<or> A e i = 1" by blast
      then show ?thesis
      proof
        assume z: "A e i = 0"
        with that Ad rel smg smc show ?thesis
          by (simp add: sm' on_grid_round [OF p smg])
      next
        assume o: "A e i = 1"
        with low that have le: "sm i + d \<le> c i" by auto
        have g: "on_grid p (sm i + d)"
          by (rule on_grid_add [OF smg dg cg le])
        from o that Ad rel show ?thesis
          by (simp add: sm' on_grid_round [OF p dg] on_grid_round [OF p g] le g)
      qed
    qed
    with step Some show ?thesis by auto
  qed
qed

lemma dual_growth_exact:
  assumes p: "- 1074 \<le> p" "p \<le> 971"
    and Ad: "\<forall>e. \<forall>i<m. Ad e i = Fin (A e i)"
    and ind: "\<forall>e i. A e i = 0 \<or> A e i = 1"
    and cd: "\<forall>i<m. cd i = Fin (c i) \<and> on_grid p (c i)"
    and rel: "\<forall>i<m. smd i = Fin (sm i)"
    and inv: "\<forall>i<m. sm i \<le> c i \<and> on_grid p (sm i)"
  shows "case exact_dual_growth A c m es sm of
           None \<Rightarrow> dual_growth Ad cd m es smd = None
         | Some sm' \<Rightarrow>
             (\<exists>smd'. dual_growth Ad cd m es smd = Some smd' \<and>
                (\<forall>i<m. smd' i = Fin (sm' i)) \<and>
                (\<forall>i<m. sm' i \<le> c i \<and> on_grid p (sm' i)))"
  using rel inv
proof (induction es arbitrary: sm smd)
  case Nil
  then show ?case by simp
next
  case (Cons e es)
  from Ad have Ade: "\<forall>i<m. Ad e i = Fin (A e i)" by blast
  from ind have inde: "\<forall>i. A e i = 0 \<or> A e i = 1" by blast
  note one = grow_step_exact [where A = A and Ad = Ad and e = e, OF p Ade inde cd Cons.prems]
  show ?case
  proof (cases "exact_grow_step A c m e sm")
    case None
    with one show ?thesis by simp
  next
    case (Some sm1)
    with one obtain smd1 where s: "grow_step Ad cd m e smd = Some smd1"
      and r: "\<forall>i<m. smd1 i = Fin (sm1 i)" and i: "\<forall>i<m. sm1 i \<le> c i \<and> on_grid p (sm1 i)"
      by auto
    from Cons.IH [OF r i] Some s show ?thesis by (simp split: option.splits)
  qed
qed

lemma tight_sets_exact:
  assumes p: "- 1074 \<le> p" "p \<le> 971"
    and cd: "\<forall>i<m. cd i = Fin (c i) \<and> on_grid p (c i)"
    and rel: "\<forall>i<m. smd i = Fin (sm i)"
    and inv: "\<forall>i<m. sm i \<le> c i \<and> on_grid p (sm i)"
  shows "tight_sets cd smd m = exact_tight_sets c sm m"
  unfolding tight_sets_def exact_tight_sets_def
proof (rule filter_cong [OF refl])
  fix i assume "i \<in> set [0..<m]"
  then have i: "i < m" by simp
  with cd inv have g: "on_grid p (c i - sm i)"
    by (intro on_grid_diff) simp_all
  from i cd rel show "double_less (double_fabs (double_sub (cd i) (smd i))) EPSILON =
      (\<bar>c i - sm i\<bar> < EPSILON_value)"
    by (simp add: on_grid_round [OF p g] EPSILON_def)
qed

text \<open>
  For a validated instance with costs on a grid, from memory that reads zero, the program
  and the exact loop run alike on every list of elements, and select the same sets.
\<close>

lemma grid_costs_D:
  assumes v: "verify inst = Inr ()" and g: "grid_costs p inst"
  shows "- 1074 \<le> p" and "p \<le> 971"
    and "\<forall>i<length (sets inst). cost_vector inst i = Fin (cost_value inst i) \<and>
           on_grid p (cost_value inst i)"
proof -
  from g show "- 1074 \<le> p" "p \<le> 971" by (simp_all add: grid_costs_def)
  show "\<forall>i<length (sets inst). cost_vector inst i = Fin (cost_value inst i) \<and>
           on_grid p (cost_value inst i)"
  proof (intro allI impI)
    fix i assume "i < length (sets inst)"
    with v have "i < length (costs inst)" by (simp add: verify_ok_iff)
    with g have "grid_cost p (costs inst ! i)"
      by (simp add: grid_costs_def list_all_length)
    then show "cost_vector inst i = Fin (cost_value inst i) \<and> on_grid p (cost_value inst i)"
      by (cases "costs inst ! i") (simp_all add: grid_cost_def cost_vector_def cost_value_def)
  qed
qed

lemma run_exact:
  assumes v: "verify inst = Inr ()" and g: "grid_costs p inst"
  shows "case exact_dual_growth (membership inst) (cost_value inst) (length (sets inst)) es (\<lambda>i. 0) of
           None \<Rightarrow> dual_growth (coverage_matrix (\<lambda>r c. Fin 0) inst) (cost_vector inst)
                     (length (sets inst)) es (\<lambda>i. Fin 0) = None
         | Some sm \<Rightarrow>
             (\<exists>smd. dual_growth (coverage_matrix (\<lambda>r c. Fin 0) inst) (cost_vector inst)
                       (length (sets inst)) es (\<lambda>i. Fin 0) = Some smd \<and>
                (\<forall>i<length (sets inst). smd i = Fin (sm i)) \<and>
                (\<forall>i<length (sets inst). sm i \<le> cost_value inst i \<and> on_grid p (sm i)))"
proof (rule dual_growth_exact [where p = p])
  note G = grid_costs_D [OF v g]
  show "- 1074 \<le> p" "p \<le> 971" by (rule G)+
  show "\<forall>e. \<forall>i<length (sets inst).
          coverage_matrix (\<lambda>r c. Fin 0) inst e i = Fin (membership inst e i)"
    by (simp add: coverage_matrix_zeroed [OF v])
  show "\<forall>e i. membership inst e i = 0 \<or> membership inst e i = 1"
    using membership_indicator by blast
  show "\<forall>i<length (sets inst). cost_vector inst i = Fin (cost_value inst i) \<and>
          on_grid p (cost_value inst i)"
    by (rule G)
  show "\<forall>i<length (sets inst). Fin 0 = Fin 0" by simp
  show "\<forall>i<length (sets inst). 0 \<le> cost_value inst i \<and> on_grid p 0"
    using G(3) by (auto intro: on_grid_nonneg on_grid_zero)
qed

lemma solve_exact:
  assumes v: "verify inst = Inr ()" and g: "grid_costs p inst"
  shows "solve (\<lambda>r c. Fin 0) (\<lambda>i. Fin 0) inst =
     (case exact_dual_growth (membership inst) (cost_value inst) (length (sets inst))
             [0..<nr_elements inst] (\<lambda>i. 0) of
        None \<Rightarrow> Inr ([''Infeasible!''], [])
      | Some sm \<Rightarrow> Inr ([], exact_tight_sets (cost_value inst) sm (length (sets inst))))"
proof (cases "exact_dual_growth (membership inst) (cost_value inst) (length (sets inst))
             [0..<nr_elements inst] (\<lambda>i. 0)")
  case None
  with run_exact [OF v g, of "[0..<nr_elements inst]"] show ?thesis
    by (simp add: solve_def v)
next
  case (Some sm)
  with run_exact [OF v g, of "[0..<nr_elements inst]"] obtain smd
    where run: "dual_growth (coverage_matrix (\<lambda>r c. Fin 0) inst) (cost_vector inst)
                  (length (sets inst)) [0..<nr_elements inst] (\<lambda>i. Fin 0) = Some smd"
      and rel: "\<forall>i<length (sets inst). smd i = Fin (sm i)"
      and inv: "\<forall>i<length (sets inst). sm i \<le> cost_value inst i \<and> on_grid p (sm i)"
    by auto
  note G = grid_costs_D [OF v g]
  have "tight_sets (cost_vector inst) smd (length (sets inst)) =
          exact_tight_sets (cost_value inst) sm (length (sets inst))"
    by (rule tight_sets_exact [OF G(1,2,3) rel inv])
  with run Some show ?thesis by (simp add: solve_def v)
qed

lemma cost_value_nonneg:
  assumes "verify inst = Inr ()" and "grid_costs p inst"
  shows "\<forall>i<length (sets inst). (\<lambda>i. 0) i \<le> cost_value inst i"
  using grid_costs_D(3) [OF assms] by (auto intro: on_grid_nonneg)

lemma exact_run_feasible:
  assumes "feasible inst"
  shows "\<exists>sm. exact_dual_growth (membership inst) (cost_value inst) (length (sets inst))
                 [0..<nr_elements inst] (\<lambda>i. 0) = Some sm"
  by (rule exact_dual_growth_total [OF membership_feasible [OF assms]])

section \<open>Claims about coverage and selection\<close>

lemma covered_elements_in_universe:
  assumes v: "verify inst = Inr ()" and "set cover \<subseteq> {..<length (sets inst)}"
  shows "covered_elements inst cover \<subseteq> universe inst"
proof
  fix x assume "x \<in> covered_elements inst cover"
  then obtain s where s: "s \<in> set cover" "x \<in> set (sets inst ! s)"
    by (auto simp: covered_elements_def)
  with assms(2) have "sets inst ! s \<in> set (sets inst)" by auto
  with v s(2) have "0 \<le> x" "x < int (nr_elements inst)"
    by (auto simp: verify_ok_iff)
  then have "x = int (nat x)" "nat x < nr_elements inst" by simp_all
  then show "x \<in> universe inst"
    unfolding universe_def by (metis atLeastLessThan_iff imageI le0)
qed

lemma set_exact_tight_sets:
  "set (exact_tight_sets c sm m) = {i. i < m \<and> \<bar>c i - sm i\<bar> < EPSILON_value}"
  by (auto simp: exact_tight_sets_def)

text \<open>
  Claim C1, amended. For every instance that passes \<^verbatim>\<open>verify\<close>, in which every element
  lies in some set and whose costs are finite, not negative and on one grid (multiples of
  one power of two \<open>2^p\<close>, each below \<open>2^(p + 53)\<close>, so that no operation of the run
  rounds), and when the allocated matrix and vector read zero: \<^verbatim>\<open>solve\<close> returns a
  sequence of set indices, with nothing written to \<^verbatim>\<open>std::cerr\<close>, and the union of the
  sets at the returned indices is the whole universe.
\<close>

theorem solve_covers_universe:
  assumes v: "verify inst = Inr ()" and f: "feasible inst" and g: "grid_costs p inst"
  shows "\<exists>cover. solve (\<lambda>r c. Fin 0) (\<lambda>i. Fin 0) inst = Inr ([], cover) \<and>
                 covered_elements inst cover = universe inst"
proof -
  let ?A = "membership inst"
  let ?c = "cost_value inst"
  let ?m = "length (sets inst)"
  from exact_run_feasible [OF f]
  obtain sm where sm: "exact_dual_growth ?A ?c ?m [0..<nr_elements inst] (\<lambda>i. 0) = Some sm"
    by blast
  let ?cover = "exact_tight_sets ?c sm ?m"
  have res: "solve (\<lambda>r c. Fin 0) (\<lambda>i. Fin 0) inst = Inr ([], ?cover)"
    by (simp add: solve_exact [OF v g] sm)
  have ind: "\<forall>e i. ?A e i = 0 \<or> ?A e i = 1"
    using membership_indicator by blast
  from exact_dual_growth_invariant [OF sm ind cost_value_nonneg [OF v g]]
  have tight: "\<forall>e\<in>set [0..<nr_elements inst]. \<exists>i<?m. ?A e i = 1 \<and> sm i = ?c i"
    by simp
  have "universe inst \<subseteq> covered_elements inst ?cover"
  proof
    fix x assume "x \<in> universe inst"
    then obtain e where e: "e < nr_elements inst" "x = int e"
      by (auto simp: universe_def)
    with tight have "\<exists>i<?m. ?A e i = 1 \<and> sm i = ?c i" by simp
    then obtain i where i: "i < ?m" "?A e i = 1" "sm i = ?c i" by blast
    from i(1,3) have "i \<in> set ?cover"
      by (simp add: set_exact_tight_sets EPSILON_bounds)
    moreover from i(2) have "int e \<in> set (sets inst ! i)"
      by (simp add: membership_def split: if_splits)
    ultimately show "x \<in> covered_elements inst ?cover"
      using e(2) by (auto simp: covered_elements_def)
  qed
  moreover have "covered_elements inst ?cover \<subseteq> universe inst"
    by (rule covered_elements_in_universe [OF v]) (auto simp: set_exact_tight_sets)
  ultimately have "covered_elements inst ?cover = universe inst" by blast
  with res show ?thesis by blast
qed

theorem solve_covers_universe_witness:
  "verify main_instance = Inr () \<and> feasible main_instance \<and> grid_costs 0 main_instance \<and>
   (\<exists>cover. solve (\<lambda>r c. Fin 0) (\<lambda>i. Fin 0) main_instance = Inr ([], cover) \<and>
             covered_elements main_instance cover = universe main_instance)"
  using solve_covers_universe [OF main_instance_verified main_instance_feasible
      main_instance_grid]
    main_instance_verified main_instance_feasible main_instance_grid
  by blast

text \<open>Rounding at the numbers next to \<open>2^53\<close>, where the binary64 numbers are the even ones.\<close>

lemma round_to_double_above_2_53:
  "round_to_double 9007199254740992 = Fin 9007199254740992"
  "round_to_double 9007199254740993 = Fin 9007199254740992"
  "round_to_double 9007199254740994 = Fin 9007199254740994"
  "round_to_double 9007199254740995 = Fin 9007199254740996"
  "round_to_double 9007199254740996 = Fin 9007199254740996"
  by (subst round_to_double_in_binade [of 53], simp, simp, simp,
      simp add: round_even_def Let_def)+

text \<open>
  Claim C1 as stated, for every validated feasible instance, fails in two ways, both from
  memory that reads zero. Where a cost is negative: two elements, set 0 with cost 1 and
  elements 0 and 1, set 1 with cost -1 and element 1; element 0 makes set 0 tight, then
  element 1 takes the increment -1, which is the gap of set 1, and set 0 is tight no more;
  the result is set 1 alone, and element 0 is not covered. And where an operation rounds:
  two elements, set 0 with cost 1 and element 0, set 1 with cost \<open>2^53 + 2\<close> and elements
  0 and 1; after element 0 both slacks are 1, the gap \<open>2^53 + 1\<close> of set 1 rounds to
  \<open>2^53\<close> and so does the slack \<open>1 + 2^53\<close>, which leaves set 1 at a distance of 2 from
  tight; the result is set 0 alone, and element 1 is not covered.
\<close>

theorem negative_cost_leaves_element_uncovered:
  "verify negative_cost_instance = Inr () \<and>
   feasible negative_cost_instance \<and>
   solve (\<lambda>r c. Fin 0) (\<lambda>i. Fin 0) negative_cost_instance = Inr ([], [1]) \<and>
   covered_elements negative_cost_instance [1] \<noteq> universe negative_cost_instance \<and>
   verify rounded_gap_instance = Inr () \<and>
   feasible rounded_gap_instance \<and>
   nonneg_costs rounded_gap_instance \<and>
   solve (\<lambda>r c. Fin 0) (\<lambda>i. Fin 0) rounded_gap_instance = Inr ([], [0]) \<and>
   covered_elements rounded_gap_instance [0] \<noteq> universe rounded_gap_instance"
proof -
  have I: "negative_cost_instance =
      \<lparr>nr_elements = 2, sets = [[0, 1], [1]], costs = [Fin 1, Fin (- 1)]\<rparr>"
    by (simp add: negative_cost_instance_def add_set_def Instance_new_def)
  have J: "rounded_gap_instance =
      \<lparr>nr_elements = 2, sets = [[0], [0, 1]], costs = [Fin 1, Fin 9007199254740994]\<rparr>"
    by (simp add: rounded_gap_instance_def add_set_def Instance_new_def)
  have "verify negative_cost_instance = Inr ()"
    by (simp add: I verify_def)
  moreover have "feasible negative_cost_instance"
    by (simp add: I feasible_def upt_rec)
  moreover have "solve (\<lambda>r c. Fin 0) (\<lambda>i. Fin 0) negative_cost_instance = Inr ([], [1])"
    by (simp add: I solve_def verify_def coverage_matrix_def cost_vector_def
        grow_step_def std_min_def Let_def tight_sets_def EPSILON_def EPSILON_value_def upt_rec)
  moreover have "covered_elements negative_cost_instance [1] \<noteq> universe negative_cost_instance"
  proof -
    have "0 \<in> universe negative_cost_instance" by (simp add: I universe_def)
    moreover have "0 \<notin> covered_elements negative_cost_instance [1]"
      by (simp add: I covered_elements_def)
    ultimately show ?thesis by metis
  qed
  moreover have "verify rounded_gap_instance = Inr ()"
    by (simp add: J verify_def)
  moreover have "feasible rounded_gap_instance"
    by (simp add: J feasible_def upt_rec)
  moreover have "nonneg_costs rounded_gap_instance"
    by (simp add: J nonneg_costs_def)
  moreover have "solve (\<lambda>r c. Fin 0) (\<lambda>i. Fin 0) rounded_gap_instance = Inr ([], [0])"
    by (simp add: J solve_def verify_def coverage_matrix_def cost_vector_def
        grow_step_def std_min_def Let_def tight_sets_def EPSILON_def EPSILON_value_def upt_rec
        round_to_double_above_2_53)
  moreover have "covered_elements rounded_gap_instance [0] \<noteq> universe rounded_gap_instance"
  proof -
    have "1 \<in> universe rounded_gap_instance"
      by (simp add: J universe_def)
    moreover have "1 \<notin> covered_elements rounded_gap_instance [0]"
      by (simp add: J covered_elements_def)
    ultimately show ?thesis by metis
  qed
  ultimately show ?thesis by blast
qed

lemma sorted_tight_sets: "sorted_wrt (<) (tight_sets c sm m)"
  unfolding tight_sets_def by (rule sorted_wrt_filter) (rule sorted_wrt_upt)

text \<open>
  Claim C6, amended. For every instance that passes \<^verbatim>\<open>verify\<close> and every content of the
  allocated memory: when the dual growth has processed all elements and ends with the
  vector \<open>sm\<close>, \<^verbatim>\<open>solve\<close> writes nothing to \<^verbatim>\<open>std::cerr\<close> and returns exactly the indices
  \<open>i\<close> with \<^verbatim>\<open>fabs(c[i] - sm[i]) < EPSILON\<close> (the subtraction rounded, \<^verbatim>\<open>EPSILON\<close> the
  binary64 number next to 0.0001), in strictly increasing order; when the dual growth takes
  the early return, \<^verbatim>\<open>solve\<close> returns the empty sequence, whichever sets are tight. The
  dual growth does process all elements when every element lies in some set, the costs are
  on one grid and the allocated memory reads zero.
\<close>

theorem solve_selects_tight_sets:
  assumes v: "verify inst = Inr ()"
  shows "(\<forall>sm. dual_growth (coverage_matrix A_alloc inst) (cost_vector inst)
                 (length (sets inst)) [0..<nr_elements inst] sum_alloc = Some sm \<longrightarrow>
            solve A_alloc sum_alloc inst =
              Inr ([], filter (\<lambda>i. double_less
                                    (double_fabs (double_sub (costs inst ! i) (sm i))) EPSILON)
                         [0..<length (sets inst)]) \<and>
            sorted_wrt (<)
              (filter (\<lambda>i. double_less
                              (double_fabs (double_sub (costs inst ! i) (sm i))) EPSILON)
                 [0..<length (sets inst)])) \<and>
         (dual_growth (coverage_matrix A_alloc inst) (cost_vector inst)
            (length (sets inst)) [0..<nr_elements inst] sum_alloc = None \<longrightarrow>
            solve A_alloc sum_alloc inst = Inr ([''Infeasible!''], [])) \<and>
         (feasible inst \<and> grid_costs p inst \<longrightarrow>
            (\<exists>sm. dual_growth (coverage_matrix (\<lambda>r c. Fin 0) inst) (cost_vector inst)
                    (length (sets inst)) [0..<nr_elements inst] (\<lambda>i. Fin 0) = Some sm))"
proof (intro conjI allI impI)
  fix sm
  assume sm: "dual_growth (coverage_matrix A_alloc inst) (cost_vector inst)
                 (length (sets inst)) [0..<nr_elements inst] sum_alloc = Some sm"
  have t: "tight_sets (cost_vector inst) sm (length (sets inst)) =
             filter (\<lambda>i. double_less (double_fabs (double_sub (costs inst ! i) (sm i))) EPSILON)
               [0..<length (sets inst)]"
    by (simp add: tight_sets_def cost_vector_def)
  show "solve A_alloc sum_alloc inst =
          Inr ([], filter (\<lambda>i. double_less
                                (double_fabs (double_sub (costs inst ! i) (sm i))) EPSILON)
                     [0..<length (sets inst)])"
    by (simp add: solve_def v sm t)
  show "sorted_wrt (<)
      (filter (\<lambda>i. double_less (double_fabs (double_sub (costs inst ! i) (sm i))) EPSILON)
         [0..<length (sets inst)])"
    using sorted_tight_sets [of "cost_vector inst" sm "length (sets inst)"] by (simp only: t)
next
  assume "dual_growth (coverage_matrix A_alloc inst) (cost_vector inst)
            (length (sets inst)) [0..<nr_elements inst] sum_alloc = None"
  then show "solve A_alloc sum_alloc inst = Inr ([''Infeasible!''], [])"
    by (simp add: solve_def v)
next
  assume "feasible inst \<and> grid_costs p inst"
  then have f: "feasible inst" and g: "grid_costs p inst" by simp_all
  from exact_run_feasible [OF f] run_exact [OF v g, of "[0..<nr_elements inst]"]
  show "\<exists>sm. dual_growth (coverage_matrix (\<lambda>r c. Fin 0) inst) (cost_vector inst)
                    (length (sets inst)) [0..<nr_elements inst] (\<lambda>i. Fin 0) = Some sm"
    by auto
qed

theorem solve_selects_tight_sets_witness:
  "verify main_instance = Inr () \<and> feasible main_instance \<and> grid_costs 0 main_instance \<and>
   (\<exists>sm. dual_growth (coverage_matrix (\<lambda>r c. Fin 0) main_instance) (cost_vector main_instance)
            (length (sets main_instance)) [0..<nr_elements main_instance] (\<lambda>i. Fin 0) = Some sm \<and>
          solve (\<lambda>r c. Fin 0) (\<lambda>i. Fin 0) main_instance =
            Inr ([], filter (\<lambda>i. double_less
                                  (double_fabs (double_sub (costs main_instance ! i) (sm i)))
                                  EPSILON)
                       [0..<length (sets main_instance)]) \<and>
          sorted_wrt (<)
            (filter (\<lambda>i. double_less
                            (double_fabs (double_sub (costs main_instance ! i) (sm i))) EPSILON)
               [0..<length (sets main_instance)]))"
proof -
  note T = solve_selects_tight_sets [OF main_instance_verified,
      of "\<lambda>r c. Fin 0" "\<lambda>i. Fin 0" 0]
  from T main_instance_feasible main_instance_grid
  obtain sm where sm: "dual_growth (coverage_matrix (\<lambda>r c. Fin 0) main_instance)
      (cost_vector main_instance) (length (sets main_instance))
      [0..<nr_elements main_instance] (\<lambda>i. Fin 0) = Some sm"
    by blast
  with T main_instance_verified main_instance_feasible main_instance_grid
  show ?thesis by blast
qed

text \<open>
  Claim C6 as stated, for every feasible validated instance, fails where the dual growth
  takes the early return on a feasible instance. One element, set 0 with cost 0 and no
  element, set 1 with cost plus infinity and element 0, from memory that reads zero: the
  only gap of element 0 is infinite, line 70 takes it for infeasibility, and \<^verbatim>\<open>solve\<close>
  returns the empty sequence although set 0 is tight for the slack at that moment.
\<close>

theorem infinite_cost_stops_selection:
  "verify infinite_cost_instance = Inr () \<and>
   feasible infinite_cost_instance \<and>
   nonneg_costs infinite_cost_instance \<and>
   solve (\<lambda>r c. Fin 0) (\<lambda>i. Fin 0) infinite_cost_instance = Inr ([''Infeasible!''], []) \<and>
   tight_sets (cost_vector infinite_cost_instance) (\<lambda>i. Fin 0)
     (length (sets infinite_cost_instance)) = [0]"
proof -
  have I: "infinite_cost_instance = \<lparr>nr_elements = 1, sets = [[], [0]], costs = [Fin 0, PInf]\<rparr>"
    by (simp add: infinite_cost_instance_def add_set_def Instance_new_def)
  show ?thesis
    by (simp add: I verify_def feasible_def nonneg_costs_def solve_def coverage_matrix_def
        cost_vector_def grow_step_def std_min_def Let_def tight_sets_def EPSILON_def
        EPSILON_value_def upt_rec)
qed

section \<open>Claims about infeasibility\<close>

lemma max_possible_incr_skip:
  "\<forall>i\<in>set is. double_less (cov i) EPSILON \<Longrightarrow> max_possible_incr cov gap is acc = acc"
  by (induction "is") simp_all

lemma grow_step_empty_row:
  "\<forall>i<m. double_less (A e i) EPSILON \<Longrightarrow> grow_step A c m e sm = None"
  by (simp add: grow_step_def max_possible_incr_skip)

lemma dual_growth_append:
  "dual_growth A c m (xs @ ys) sm =
     (case dual_growth A c m xs sm of None \<Rightarrow> None | Some sm1 \<Rightarrow> dual_growth A c m ys sm1)"
  by (induction xs arbitrary: sm) (auto split: option.splits)

lemma dual_growth_stops:
  "dual_growth A c m [0..<k] sm0 = None \<Longrightarrow>
     \<exists>e'<k. \<exists>sm. dual_growth A c m [0..<e'] sm0 = Some sm \<and> grow_step A c m e' sm = None"
proof (induction k)
  case 0
  then show ?case by simp
next
  case (Suc k)
  show ?case
  proof (cases "dual_growth A c m [0..<k] sm0")
    case None
    from Suc.IH [OF this] show ?thesis
      using less_Suc_eq by blast
  next
    case (Some sm)
    with Suc.prems have "grow_step A c m k sm = None"
      by (simp add: dual_growth_append split: option.splits)
    with Some show ?thesis by blast
  qed
qed

lemma first_uncovered_Some:
  assumes "first_uncovered inst = Some e"
  shows "e < nr_elements inst"
    and "\<forall>s<length (sets inst). int e \<notin> set (sets inst ! s)"
    and "\<forall>e'<e. \<exists>s<length (sets inst). int e' \<in> set (sets inst ! s)"
proof -
  from assms obtain k where k: "k < length [0..<nr_elements inst]"
      "\<not> list_ex (\<lambda>s. int e \<in> set s) (sets inst)" "e = [0..<nr_elements inst] ! k"
      "\<forall>j<k. list_ex (\<lambda>s. int ([0..<nr_elements inst] ! j) \<in> set s) (sets inst)"
    by (auto simp: first_uncovered_def find_Some_iff)
  from k(1,3) have ek: "e = k" and "k < nr_elements inst" by simp_all
  then show "e < nr_elements inst" by simp
  from k(2) show "\<forall>s<length (sets inst). int e \<notin> set (sets inst ! s)"
    by (simp add: list_ex_length)
  show "\<forall>e'<e. \<exists>s<length (sets inst). int e' \<in> set (sets inst ! s)"
  proof (intro allI impI)
    fix e' assume "e' < e"
    with ek k(1,4) have "list_ex (\<lambda>s. int e' \<in> set s) (sets inst)" by auto
    then show "\<exists>s<length (sets inst). int e' \<in> set (sets inst ! s)"
      by (simp add: list_ex_length)
  qed
qed

text \<open>
  Claim C3, amended. For every instance that passes \<^verbatim>\<open>verify\<close> and whose least element
  that lies in no set is \<open>e\<close>, when the allocated matrix reads zero (the content of the
  allocated vector is free): \<^verbatim>\<open>solve\<close> writes the line \<^verbatim>\<open>Infeasible!\<close> to \<^verbatim>\<open>std::cerr\<close>
  and returns the empty sequence of set indices; the element \<open>e\<close> is in neither. The dual
  growth takes the early return at \<open>e\<close> or at an element before it, and at \<open>e\<close> itself,
  after passing every element before it, when the costs are on one grid and the allocated
  vector reads zero as well.
\<close>

theorem solve_infeasible_returns_empty:
  assumes v: "verify inst = Inr ()" and fu: "first_uncovered inst = Some e"
  shows "solve (\<lambda>r c. Fin 0) sum_alloc inst = Inr ([''Infeasible!''], []) \<and>
         (\<exists>e'\<le>e. \<exists>sm. dual_growth (coverage_matrix (\<lambda>r c. Fin 0) inst) (cost_vector inst)
                          (length (sets inst)) [0..<e'] sum_alloc = Some sm \<and>
                        grow_step (coverage_matrix (\<lambda>r c. Fin 0) inst) (cost_vector inst)
                          (length (sets inst)) e' sm = None) \<and>
         (grid_costs p inst \<longrightarrow>
            (\<exists>sm. dual_growth (coverage_matrix (\<lambda>r c. Fin 0) inst) (cost_vector inst)
                    (length (sets inst)) [0..<e] (\<lambda>i. Fin 0) = Some sm \<and>
                  grow_step (coverage_matrix (\<lambda>r c. Fin 0) inst) (cost_vector inst)
                    (length (sets inst)) e sm = None))"
proof -
  let ?A = "coverage_matrix (\<lambda>r c. Fin 0) inst"
  let ?c = "cost_vector inst"
  let ?m = "length (sets inst)"
  note u = first_uncovered_Some [OF fu]
  have "\<forall>i<?m. double_less (?A e i) EPSILON"
    using u(2) by (simp add: coverage_matrix_zeroed [OF v] membership_def)
  then have stop: "grow_step ?A ?c ?m e sm = None" for sm
    by (rule grow_step_empty_row)
  have split: "[0..<nr_elements inst] = [0..<e] @ e # [Suc e..<nr_elements inst]"
  proof -
    from u(1) have "[0..<e + (nr_elements inst - e)] = [0..<e] @ [e..<e + (nr_elements inst - e)]"
      by (intro upt_add_eq_append) simp
    with u(1) show ?thesis by (simp add: upt_conv_Cons)
  qed
  have "dual_growth ?A ?c ?m [0..<nr_elements inst] sum_alloc = None"
    by (simp add: split dual_growth_append stop split: option.splits)
  then have res: "solve (\<lambda>r c. Fin 0) sum_alloc inst = Inr ([''Infeasible!''], [])"
    by (simp add: solve_def v)
  have early: "\<exists>e'\<le>e. \<exists>sm. dual_growth ?A ?c ?m [0..<e'] sum_alloc = Some sm \<and>
                  grow_step ?A ?c ?m e' sm = None"
  proof (cases "dual_growth ?A ?c ?m [0..<e] sum_alloc")
    case None
    from dual_growth_stops [OF this] show ?thesis
      using less_imp_le_nat by blast
  next
    case (Some sm)
    with stop show ?thesis by blast
  qed
  have exact: "\<exists>sm. dual_growth ?A ?c ?m [0..<e] (\<lambda>i. Fin 0) = Some sm \<and>
                  grow_step ?A ?c ?m e sm = None" if g: "grid_costs p inst"
  proof -
    have "\<forall>e'\<in>set [0..<e]. \<exists>i<?m. EPSILON_value \<le> membership inst e' i"
    proof
      fix e' assume "e' \<in> set [0..<e]"
      with u(3) obtain s where "s < ?m" "int e' \<in> set (sets inst ! s)" by auto
      then have "s < ?m \<and> EPSILON_value \<le> membership inst e' s"
        by (simp add: membership_def EPSILON_bounds)
      then show "\<exists>i<?m. EPSILON_value \<le> membership inst e' i" by blast
    qed
    from exact_dual_growth_total [OF this]
    obtain sm' where "exact_dual_growth (membership inst) (cost_value inst) ?m [0..<e] (\<lambda>i. 0) =
        Some sm'"
      by blast
    with run_exact [OF v g, of "[0..<e]"]
    have "\<exists>sm. dual_growth ?A ?c ?m [0..<e] (\<lambda>i. Fin 0) = Some sm" by auto
    with stop show ?thesis by blast
  qed
  from res early exact show ?thesis by blast
qed

theorem solve_infeasible_returns_empty_witness:
  "verify uncovered_1_instance = Inr () \<and>
   first_uncovered uncovered_1_instance = Some 1 \<and>
   grid_costs 0 uncovered_1_instance \<and>
   solve (\<lambda>r c. Fin 0) (\<lambda>i. Fin 0) uncovered_1_instance = Inr ([''Infeasible!''], []) \<and>
   (\<exists>e'\<le>1. \<exists>sm. dual_growth (coverage_matrix (\<lambda>r c. Fin 0) uncovered_1_instance)
                    (cost_vector uncovered_1_instance)
                    (length (sets uncovered_1_instance)) [0..<e'] (\<lambda>i. Fin 0) = Some sm \<and>
                  grow_step (coverage_matrix (\<lambda>r c. Fin 0) uncovered_1_instance)
                    (cost_vector uncovered_1_instance)
                    (length (sets uncovered_1_instance)) e' sm = None) \<and>
   (\<exists>sm. dual_growth (coverage_matrix (\<lambda>r c. Fin 0) uncovered_1_instance)
            (cost_vector uncovered_1_instance)
            (length (sets uncovered_1_instance)) [0..<1] (\<lambda>i. Fin 0) = Some sm \<and>
          grow_step (coverage_matrix (\<lambda>r c. Fin 0) uncovered_1_instance)
            (cost_vector uncovered_1_instance)
            (length (sets uncovered_1_instance)) 1 sm = None)"
proof -
  have I: "uncovered_1_instance = \<lparr>nr_elements = 2, sets = [[0]], costs = [Fin 1]\<rparr>"
    by (simp add: uncovered_1_instance_def add_set_def Instance_new_def)
  have v: "verify uncovered_1_instance = Inr ()" by (simp add: I verify_def)
  have fu: "first_uncovered uncovered_1_instance = Some 1"
    by (simp add: I first_uncovered_def upt_rec)
  have g: "grid_costs 0 uncovered_1_instance"
    by (simp add: I grid_costs_def grid_cost_def)
  from solve_infeasible_returns_empty [OF v fu, of "\<lambda>i. Fin 0" 0] v fu g show ?thesis by blast
qed

text \<open>
  Claim C3 as stated fails: there is no error value for infeasibility, and the result
  does not carry the element. Two validated instances, the first with element 0 in no set
  and the second with element 1 in no set, give the same result, the line
  \<^verbatim>\<open>Infeasible!\<close> and the empty sequence; and the empty sequence is also what a feasible
  instance returns to the caller when no set is tight (no element, one set of cost 1).
  Nor is the early return always at the first element in no set: with one set of cost plus
  infinity that contains element 0, and element 1 in no set, it is taken at element 0.
\<close>

theorem infeasible_result_has_no_element:
  "verify uncovered_0_instance = Inr () \<and>
   verify uncovered_1_instance = Inr () \<and>
   first_uncovered uncovered_0_instance = Some 0 \<and>
   first_uncovered uncovered_1_instance = Some 1 \<and>
   solve (\<lambda>r c. Fin 0) (\<lambda>i. Fin 0) uncovered_0_instance = Inr ([''Infeasible!''], []) \<and>
   solve (\<lambda>r c. Fin 0) (\<lambda>i. Fin 0) uncovered_1_instance = Inr ([''Infeasible!''], []) \<and>
   verify no_element_instance = Inr () \<and>
   feasible no_element_instance \<and>
   solve (\<lambda>r c. Fin 0) (\<lambda>i. Fin 0) no_element_instance = Inr ([], []) \<and>
   verify infinite_cost_uncovered_1_instance = Inr () \<and>
   first_uncovered infinite_cost_uncovered_1_instance = Some 1 \<and>
   grow_step (coverage_matrix (\<lambda>r c. Fin 0) infinite_cost_uncovered_1_instance)
     (cost_vector infinite_cost_uncovered_1_instance)
     (length (sets infinite_cost_uncovered_1_instance)) 0 (\<lambda>i. Fin 0) = None"
  by (simp add: uncovered_0_instance_def uncovered_1_instance_def no_element_instance_def
      infinite_cost_uncovered_1_instance_def
      add_set_def Instance_new_def first_uncovered_def feasible_def solve_def verify_def
      coverage_matrix_def cost_vector_def grow_step_def std_min_def Let_def tight_sets_def
      EPSILON_def EPSILON_value_def upt_rec)

section \<open>The approximation bound\<close>

lemma total_cost_distinct:
  "distinct cover \<Longrightarrow> total_cost inst cover = (\<Sum>i\<in>set cover. cost_value inst i)"
  by (simp add: total_cost_def sum_list_distinct_conv_sum_set)

lemma all_covers_D:
  assumes "C \<in> set (all_covers inst)"
  shows "distinct C" and "set C \<subseteq> {..<length (sets inst)}"
    and "\<forall>e<nr_elements inst. \<exists>s\<in>set C. int e \<in> set (sets inst ! s)"
proof -
  from assms have sub: "C \<in> set (subseqs [0..<length (sets inst)])" and cov: "is_cover inst C"
    by (simp_all add: all_covers_def)
  from sub show "distinct C"
    by (rule subseqs_distinctD) simp
  from sub have "set C \<in> set ` set (subseqs [0..<length (sets inst)])" by (rule imageI)
  then have "set C \<in> Pow (set [0..<length (sets inst)])" by (simp only: subseqs_powset)
  then show "set C \<subseteq> {..<length (sets inst)}" by auto
  from cov show "\<forall>e<nr_elements inst. \<exists>s\<in>set C. int e \<in> set (sets inst ! s)"
    by (simp add: is_cover_def list_all_iff list_ex_iff)
qed

text \<open>
  From zeros, the slack of a set never exceeds its cost, so the slack of all sets together
  is at most \<open>f\<close> times the cost of any cover. A returned set has a cost below its slack
  plus the tolerance.
\<close>

lemma approximation_bound:
  assumes inv0: "\<forall>i<length (sets inst). (\<lambda>i. 0) i \<le> cost_value inst i"
    and run: "exact_dual_growth (membership inst) (cost_value inst)
                (length (sets inst)) [0..<nr_elements inst] (\<lambda>i. 0) = Some sm"
    and C: "C \<in> set (all_covers inst)"
  shows "total_cost inst (exact_tight_sets (cost_value inst) sm (length (sets inst))) \<le>
           real (max_frequency inst) * total_cost inst C +
           EPSILON_value * real (length (exact_tight_sets (cost_value inst) sm (length (sets inst))))"
proof -
  let ?A = "membership inst"
  let ?c = "cost_value inst"
  let ?m = "length (sets inst)"
  let ?f = "real (max_frequency inst)"
  let ?R = "exact_tight_sets ?c sm ?m"
  note CD = all_covers_D [OF C]
  have ind: "\<forall>e i. ?A e i = 0 \<or> ?A e i = 1"
    using membership_indicator by blast
  from exact_dual_growth_invariant [OF run ind inv0]
  have below: "\<forall>i<?m. sm i \<le> ?c i" and pos: "\<forall>i. 0 \<le> sm i" by simp_all
  have freq: "\<forall>e\<in>set [0..<nr_elements inst]. (\<Sum>i<?m. ?A e i) \<le> ?f"
    by (simp add: row_sum_frequency frequency_le_max)
  have cov: "\<forall>e\<in>set [0..<nr_elements inst]. \<exists>i\<in>set C. ?A e i = 1"
  proof
    fix e assume "e \<in> set [0..<nr_elements inst]"
    then have "e < nr_elements inst" by simp
    with CD(3) obtain s where s: "s \<in> set C" "int e \<in> set (sets inst ! s)" by blast
    with CD(2) have "s < ?m" by auto
    with s(2) have "?A e s = 1" by (simp add: membership_def)
    with s(1) show "\<exists>i\<in>set C. ?A e i = 1" by blast
  qed
  from exact_dual_growth_charging [OF run ind inv0 freq cov]
  have charge: "(\<Sum>i<?m. sm i) \<le> ?f * (\<Sum>i\<in>set C. sm i)" by simp
  have "(\<Sum>i\<in>set C. sm i) \<le> (\<Sum>i\<in>set C. ?c i)"
    using CD(2) below by (intro sum_mono) auto
  then have "?f * (\<Sum>i\<in>set C. sm i) \<le> ?f * (\<Sum>i\<in>set C. ?c i)"
    by (intro mult_left_mono) simp_all
  with charge have dual: "(\<Sum>i<?m. sm i) \<le> ?f * total_cost inst C"
    by (simp add: total_cost_distinct [OF CD(1)])
  have dR: "distinct ?R" by (simp add: exact_tight_sets_def)
  have subR: "set ?R \<subseteq> {..<?m}" by (auto simp: set_exact_tight_sets)
  have "total_cost inst ?R = (\<Sum>i\<in>set ?R. ?c i)"
    by (rule total_cost_distinct [OF dR])
  also have "\<dots> \<le> (\<Sum>i\<in>set ?R. sm i + EPSILON_value)"
  proof (rule sum_mono)
    fix i assume "i \<in> set ?R"
    then have "\<bar>?c i - sm i\<bar> < EPSILON_value" by (simp add: set_exact_tight_sets)
    then show "?c i \<le> sm i + EPSILON_value" by linarith
  qed
  also have "\<dots> = (\<Sum>i\<in>set ?R. sm i) + EPSILON_value * real (length ?R)"
    by (simp add: sum.distrib distinct_card [OF dR])
  also have "(\<Sum>i\<in>set ?R. sm i) \<le> (\<Sum>i<?m. sm i)"
    using subR pos by (intro sum_mono2) auto
  also note dual
  finally show ?thesis by simp
qed

text \<open>
  Claim C4, amended. For every instance that passes \<^verbatim>\<open>verify\<close>, in which every element
  lies in some set and whose costs are finite, not negative and on one grid (multiples of
  one power of two \<open>2^p\<close>, each below \<open>2^(p + 53)\<close>, so that no operation of the run
  rounds), and when the allocated matrix and vector read zero: the total cost of the sets
  \<^verbatim>\<open>solve\<close> returns is at most \<open>f\<close> times the total cost of a minimum-cost cover plus
  \<^verbatim>\<open>EPSILON\<close> times the number of returned sets, where \<open>f\<close> is the largest number of sets
  that contain one element.
\<close>

theorem solve_within_factor_and_tolerance:
  assumes v: "verify inst = Inr ()" and f: "feasible inst" and g: "grid_costs p inst"
    and opt: "optimal_cover inst opt"
  shows "\<exists>cover. solve (\<lambda>r c. Fin 0) (\<lambda>i. Fin 0) inst = Inr ([], cover) \<and>
           total_cost inst cover \<le>
             real (max_frequency inst) * total_cost inst opt +
             EPSILON_value * real (length cover)"
proof -
  from exact_run_feasible [OF f]
  obtain sm where sm: "exact_dual_growth (membership inst) (cost_value inst)
      (length (sets inst)) [0..<nr_elements inst] (\<lambda>i. 0) = Some sm"
    by blast
  from opt have C: "opt \<in> set (all_covers inst)"
    by (simp add: optimal_cover_def)
  have "solve (\<lambda>r c. Fin 0) (\<lambda>i. Fin 0) inst =
          Inr ([], exact_tight_sets (cost_value inst) sm (length (sets inst)))"
    by (simp add: solve_exact [OF v g] sm)
  with approximation_bound [OF cost_value_nonneg [OF v g] sm C] show ?thesis by blast
qed

lemma near_tie_instance_fields:
  "near_tie_instance = \<lparr>nr_elements = 1, sets = [[0], [0]], costs = [Fin 1, Fin (1 + 1 / 16384)]\<rparr>"
  by (simp add: near_tie_instance_def add_set_def Instance_new_def)

lemma near_tie_instance_facts:
  "verify near_tie_instance = Inr ()" "feasible near_tie_instance"
  "grid_costs (- 14) near_tie_instance" "optimal_cover near_tie_instance [0]"
  "max_frequency near_tie_instance = 2"
  by (simp_all add: near_tie_instance_fields verify_def feasible_def grid_costs_def grid_cost_def
      on_grid_def power_int_minus
      optimal_cover_def all_covers_def is_cover_def total_cost_def cost_value_def
      max_frequency_def frequency_def upt_rec Let_def)

theorem solve_within_factor_and_tolerance_witness:
  "verify near_tie_instance = Inr () \<and> feasible near_tie_instance \<and>
   grid_costs (- 14) near_tie_instance \<and> optimal_cover near_tie_instance [0] \<and>
   (\<exists>cover. solve (\<lambda>r c. Fin 0) (\<lambda>i. Fin 0) near_tie_instance = Inr ([], cover) \<and>
      total_cost near_tie_instance cover \<le>
        real (max_frequency near_tie_instance) * total_cost near_tie_instance [0] +
        EPSILON_value * real (length cover))"
  using solve_within_factor_and_tolerance [OF near_tie_instance_facts(1-4)]
    near_tie_instance_facts(1-4)
  by blast

lemma round_to_double_near_one:
  "round_to_double (16385 / 16384) = Fin (16385 / 16384)"
  "round_to_double (1 / 16384) = Fin (1 / 16384)"
  using round_to_double_grid [of "16385 / 16384" 16385 "- 14"]
    round_to_double_grid [of "1 / 16384" 1 "- 14"]
  by (simp_all add: power_int_minus)

lemma rounded_sum_instance_fields:
  "rounded_sum_instance =
     \<lparr>nr_elements = 2, sets = [[0], [0, 1], [1]],
      costs = [Fin 3, Fin 9007199254740996, Fin 9007199254740992]\<rparr>"
  by (simp add: rounded_sum_instance_def add_set_def Instance_new_def)

lemma rounded_sum_instance_facts:
  "verify rounded_sum_instance = Inr ()" "feasible rounded_sum_instance"
  "nonneg_costs rounded_sum_instance" "optimal_cover rounded_sum_instance [0, 2]"
  "max_frequency rounded_sum_instance = 2"
  by (simp_all add: rounded_sum_instance_fields verify_def feasible_def nonneg_costs_def
      optimal_cover_def all_covers_def is_cover_def total_cost_def cost_value_def
      max_frequency_def frequency_def upt_rec Let_def)

text \<open>
  Claim C4 as stated fails in two ways, both from memory that reads zero. Without the
  tolerance term: one element and two sets that contain it, of costs 1 and \<open>1 + 2^-14\<close>;
  the increment is 1, both sets are within \<^verbatim>\<open>EPSILON\<close> of tight and both are returned, at
  a total cost of \<open>2 + 2^-14\<close>, while \<open>f\<close> is 2 and the minimum-cost cover is set 0 alone,
  of cost 1. And where an operation rounds, the tolerance term is not enough: two elements,
  set 0 with cost 3 and element 0, set 1 with cost \<open>2^53 + 4\<close> and elements 0 and 1, set 2
  with cost \<open>2^53\<close> and element 1; the gap \<open>2^53 + 1\<close> of set 1 rounds to \<open>2^53\<close> and
  the slack \<open>3 + 2^53\<close> rounds to \<open>2^53 + 4\<close>, all three sets are returned at a total
  cost of \<open>2^54 + 7\<close>, while \<open>f\<close> is 2 and the minimum-cost cover is sets 0 and 2, of
  cost \<open>2^53 + 3\<close>.
\<close>

theorem near_tie_exceeds_factor:
  "verify near_tie_instance = Inr () \<and> feasible near_tie_instance \<and>
   nonneg_costs near_tie_instance \<and>
   solve (\<lambda>r c. Fin 0) (\<lambda>i. Fin 0) near_tie_instance = Inr ([], [0, 1]) \<and>
   optimal_cover near_tie_instance [0] \<and>
   max_frequency near_tie_instance = 2 \<and>
   \<not> total_cost near_tie_instance [0, 1] \<le>
       real (max_frequency near_tie_instance) * total_cost near_tie_instance [0] \<and>
   verify rounded_sum_instance = Inr () \<and> feasible rounded_sum_instance \<and>
   nonneg_costs rounded_sum_instance \<and>
   solve (\<lambda>r c. Fin 0) (\<lambda>i. Fin 0) rounded_sum_instance = Inr ([], [0, 1, 2]) \<and>
   optimal_cover rounded_sum_instance [0, 2] \<and>
   max_frequency rounded_sum_instance = 2 \<and>
   \<not> total_cost rounded_sum_instance [0, 1, 2] \<le>
       real (max_frequency rounded_sum_instance) * total_cost rounded_sum_instance [0, 2] +
       EPSILON_value * 3"
proof -
  have "nonneg_costs near_tie_instance"
    by (simp add: near_tie_instance_fields nonneg_costs_def)
  moreover have "solve (\<lambda>r c. Fin 0) (\<lambda>i. Fin 0) near_tie_instance = Inr ([], [0, 1])"
    by (simp add: near_tie_instance_fields solve_def verify_def coverage_matrix_def
        cost_vector_def grow_step_def std_min_def Let_def tight_sets_def EPSILON_def
        EPSILON_value_def upt_rec round_to_double_near_one)
  moreover have "\<not> total_cost near_tie_instance [0, 1] \<le>
       real (max_frequency near_tie_instance) * total_cost near_tie_instance [0]"
    by (simp add: near_tie_instance_facts(5))
      (simp add: near_tie_instance_fields total_cost_def cost_value_def)
  moreover have "solve (\<lambda>r c. Fin 0) (\<lambda>i. Fin 0) rounded_sum_instance = Inr ([], [0, 1, 2])"
    by (simp add: rounded_sum_instance_fields solve_def verify_def coverage_matrix_def
        cost_vector_def grow_step_def std_min_def Let_def tight_sets_def EPSILON_def
        EPSILON_value_def upt_rec round_to_double_above_2_53)
  moreover have "\<not> total_cost rounded_sum_instance [0, 1, 2] \<le>
       real (max_frequency rounded_sum_instance) * total_cost rounded_sum_instance [0, 2] +
       EPSILON_value * 3"
    by (simp add: rounded_sum_instance_facts(5))
      (simp add: rounded_sum_instance_fields total_cost_def cost_value_def EPSILON_value_def)
  ultimately show ?thesis
    using near_tie_instance_facts(1,2,4,5) rounded_sum_instance_facts by blast
qed

end
